theory Spec2Isabelle
  imports Main "HOL-Library.Word" "HOL-Library.Sublist"
begin

section \<open>The boot-time IRX module loader of tyra\<close>

text \<open>
  The development embeds the class \<open>IrxLoader\<close> (the translation unit that includes
  \<open>irx/irx_loader.hpp\<close>): its constructor, \<open>applyRpcPatches\<close>, the single-module
  loaders, the USB and HDD batch loaders, the readiness poller and \<open>loadAll\<close>.

  Everything the loader does is a call into the platform SDK or a log line. The model
  therefore threads a state that holds the one static field of the class, \<open>isLoaded\<close>,
  and the trace of the calls issued so far, each with the status the platform answered.
\<close>

subsection \<open>Data\<close>

text \<open>The C type \<open>int\<close> of the target: 32 bits, read as two's complement by \<open>sint\<close>.\<close>

type_synonym c_int = "32 word"

text \<open>The embedded module images declared with \<open>EXTERN_IRX\<close>.\<close>

datatype irx =
    sio2man_irx | padman_irx | audsrv_irx | libsd_irx | fileXio_irx | iomanX_irx
  | bdm_irx | bdmfs_fatfs_irx
  | usbd_mini_irx | usbmass_bd_irx | usbd_irx | usbmass_bd_mini_irx
  | ps2hdd_irx | ps2fs_irx | ps2dev9_irx | ps2atad_irx

text \<open>The three capability toggles of \<open>sbv_patches.h\<close>.\<close>

datatype sbv_patch = Enable_lmb | Disable_prefix_check | Fileio

text \<open>
  One entry of the trace per SDK call or log line. A call that returns a status carries
  the status. \<open>Exec m result ret\<close> is a call of \<open>SifExecModuleBuffer\<close> for the image
  \<open>m\<close>: \<open>result\<close> is what the call returned, which the loaders discard, and \<open>ret\<close>
  is what the local \<open>ret\<close> held after the call, which is what they test.
  \<open>Spin n\<close> is one round of the outer loop of \<open>delay\<close>: the inner loop
  \<open>while (ret--)\<close> started at \<open>n\<close>.
\<close>

datatype event =
    InitRpc
  | IopReset "string option" c_int
  | IopSync c_int
  | Patch sbv_patch c_int
  | Exec irx c_int c_int
  | Stat string c_int
  | Nopdelay
  | Spin c_int
  | Log string

text \<open>The preprocessor symbols the translation unit tests with \<open>#ifdef\<close>.\<close>

record build_options =
  RESET_IOP :: bool
  IOP :: bool
  USE_USBDMINI :: bool
  ATAD :: bool

text \<open>
  The platform SDK is outside the repository. Each of its functions that returns a
  status is a parameter: it answers from the calls issued so far (log lines left out,
  see \<open>io_history\<close>). \<open>SifExecModuleBuffer\<close> answers twice: with its return value,
  and with what it stores through its last argument, \<open>&ret\<close>, if it stores anything.
  Every loader declares \<open>int ret;\<close> without an initialiser, so when the call stores
  nothing the test reads an indeterminate value: \<open>uninitialised_int\<close> is that value,
  another parameter.
\<close>

record platform =
  SifIopReset :: "event list \<Rightarrow> c_int"
  SifIopSync :: "event list \<Rightarrow> c_int"
  sbv_patch_enable_lmb :: "event list \<Rightarrow> c_int"
  sbv_patch_disable_prefix_check :: "event list \<Rightarrow> c_int"
  sbv_patch_fileio :: "event list \<Rightarrow> c_int"
  SifExecModuleBuffer :: "event list \<Rightarrow> irx \<Rightarrow> c_int \<times> c_int option"
  uninitialised_int :: "event list \<Rightarrow> c_int"
  stat :: "event list \<Rightarrow> string \<Rightarrow> c_int"

record state =
  isLoaded :: bool
  trace :: "event list"

text \<open>A failed assertion halts the process; the state it halted in is kept.\<close>

datatype failure = AssertFailed string

type_synonym outcome = "(failure \<times> state) + state"

type_synonym stmt = "state \<Rightarrow> outcome"

fun is_log :: "event \<Rightarrow> bool" where
  "is_log (Log msg) = True"
| "is_log e = False"

definition io_history :: "event list \<Rightarrow> event list" where
  "io_history tr = filter (\<lambda>e. \<not> is_log e) tr"

definition emit :: "event \<Rightarrow> state \<Rightarrow> state" where
  "emit e s = s\<lparr>trace := trace s @ [e]\<rparr>"

subsection \<open>Statements\<close>

text \<open>A sequence of statements: the first one that halts ends the sequence.\<close>

fun block :: "stmt list \<Rightarrow> stmt" where
  "block [] s = Inr s"
| "block (f # fs) s = (case f s of Inl h \<Rightarrow> Inl h | Inr s' \<Rightarrow> block fs s')"

text \<open>The one-armed conditional, \<open>if (c) f;\<close>.\<close>

definition if_then :: "bool \<Rightarrow> stmt \<Rightarrow> stmt" where
  "if_then c f s = (if c then f s else Inr s)"

text \<open>
  Modelled from the spec: the macros \<open>TYRA_LOG\<close> and \<open>TYRA_ASSERT\<close> of
  \<open>debug/debug.hpp\<close>, which is not among the sources. Logging is a side channel that
  writes a line; a failed assertion is fatal: the process halts with the message that
  names the failing step, and nothing after it runs.
\<close>

definition TYRA_LOG :: "string \<Rightarrow> stmt" where
  "TYRA_LOG msg s = Inr (emit (Log msg) s)"

definition TYRA_ASSERT :: "bool \<Rightarrow> string \<Rightarrow> stmt" where
  "TYRA_ASSERT c msg s = (if c then Inr s else Inl (AssertFailed msg, s))"

subsection \<open>applyRpcPatches\<close>

definition applyRpcPatches :: "platform \<Rightarrow> state \<Rightarrow> (failure \<times> state) + (c_int \<times> state)" where
  "applyRpcPatches env s0 =
    (let ret = sbv_patch_enable_lmb env (io_history (trace s0));
         s1 = emit (Patch Enable_lmb ret) s0
     in case TYRA_ASSERT (0 \<le> sint ret)
               ''Failed to load Applying SBV Patches sbv_patch_enable_lmb'' s1 of
          Inl h \<Rightarrow> Inl h
        | Inr s1 \<Rightarrow>
    (let ret = sbv_patch_disable_prefix_check env (io_history (trace s1));
         s2 = emit (Patch Disable_prefix_check ret) s1
     in case TYRA_ASSERT (0 \<le> sint ret)
               ''Failed to load Applying SBV Patches sbv_patch_disable_prefix_check'' s2 of
          Inl h \<Rightarrow> Inl h
        | Inr s2 \<Rightarrow>
    (let ret = sbv_patch_fileio env (io_history (trace s2));
         s3 = emit (Patch Fileio ret) s2
     in case TYRA_ASSERT (0 \<le> sint ret)
               ''Failed to load Applying SBV Patches sbv_patch_fileio'' s3 of
          Inl h \<Rightarrow> Inl h
        | Inr s3 \<Rightarrow> Inr (ret, s3))))"

subsection \<open>The constructor\<close>

text \<open>
  \<open>while (!SifIopReset(arg, 0)) {};\<close> and \<open>while (!SifIopSync()) {};\<close> run until the
  platform answers non-zero, for ever if it never does: \<open>None\<close> is not returning.
\<close>

partial_function (option) iop_reset_loop :: "string option \<Rightarrow> platform \<Rightarrow> state \<Rightarrow> state option" where
  "iop_reset_loop arg env s =
    (if SifIopReset env (io_history (trace s)) = 0
     then iop_reset_loop arg env (emit (IopReset arg 0) s)
     else Some (emit (IopReset arg (SifIopReset env (io_history (trace s)))) s))"

partial_function (option) iop_sync_loop :: "platform \<Rightarrow> state \<Rightarrow> state option" where
  "iop_sync_loop env s =
    (if SifIopSync env (io_history (trace s)) = 0
     then iop_sync_loop env (emit (IopSync 0) s)
     else Some (emit (IopSync (SifIopSync env (io_history (trace s)))) s))"

definition SifInitRpc :: "state \<Rightarrow> state" where
  "SifInitRpc s = emit InitRpc s"

text \<open>The value of \<open>applyRpcPatches\<close> is dropped by the constructor.\<close>

definition discard :: "(failure \<times> state) + (c_int \<times> state) \<Rightarrow> outcome" where
  "discard r = (case r of Inl h \<Rightarrow> Inl h | Inr (ret, s) \<Rightarrow> Inr s)"

definition IrxLoader :: "build_options \<Rightarrow> platform \<Rightarrow> state \<Rightarrow> outcome option" where
  "IrxLoader cfg env s =
    (if RESET_IOP cfg then
       (case iop_reset_loop (if IOP cfg then Some [] else None) env (SifInitRpc s) of
          None \<Rightarrow> None
        | Some s1 \<Rightarrow>
       (case iop_sync_loop env s1 of
          None \<Rightarrow> None
        | Some s2 \<Rightarrow> Some (discard (applyRpcPatches env (SifInitRpc s2)))))
     else Some (discard (applyRpcPatches env s)))"

subsection \<open>Loading one module\<close>

text \<open>
  Every load in the file is the three lines
  \<open>int ret; SifExecModuleBuffer(&m, size_m, 0, nullptr, &ret); TYRA_ASSERT(ret >= 0, msg);\<close>.
  The return value of the call is dropped; \<open>ret_after\<close> is what \<open>ret\<close> holds when
  the assertion reads it.
\<close>

definition ret_after :: "platform \<Rightarrow> event list \<Rightarrow> irx \<Rightarrow> c_int" where
  "ret_after env h m =
    (case snd (SifExecModuleBuffer env h m) of
       Some stored \<Rightarrow> stored
     | None \<Rightarrow> uninitialised_int env h)"

definition exec_module :: "platform \<Rightarrow> irx \<Rightarrow> string \<Rightarrow> stmt" where
  "exec_module env m msg s =
    (let result = fst (SifExecModuleBuffer env (io_history (trace s)) m);
         ret = ret_after env (io_history (trace s)) m
     in TYRA_ASSERT (0 \<le> sint ret) msg (emit (Exec m result ret) s))"

definition loadLibsd :: "platform \<Rightarrow> bool \<Rightarrow> stmt" where
  "loadLibsd env verbose = block
    [if_then verbose (TYRA_LOG ''IRX: Loading libsd...''),
     exec_module env libsd_irx ''Failed to load module: libsd_irx'',
     if_then verbose (TYRA_LOG ''IRX: Libsd loaded!'')]"

definition loadIO :: "platform \<Rightarrow> bool \<Rightarrow> stmt" where
  "loadIO env verbose = block
    [if_then verbose (TYRA_LOG ''IRX: Loading iomanX...''),
     exec_module env iomanX_irx ''Failed to load module: iomanX_irx'',
     if_then verbose (TYRA_LOG ''IRX: iomanX loaded!''),
     if_then verbose (TYRA_LOG ''IRX: Loading fileXio...''),
     exec_module env fileXio_irx ''Failed to load module: fileXio_irx'',
     if_then verbose (TYRA_LOG ''IRX: fileXio_irx loaded!'')]"

definition loadAudsrv :: "platform \<Rightarrow> bool \<Rightarrow> stmt" where
  "loadAudsrv env verbose = block
    [if_then verbose (TYRA_LOG ''IRX: Loading audsrv...''),
     exec_module env audsrv_irx ''Failed to load module: audsrv_irx'',
     if_then verbose (TYRA_LOG ''IRX: Audsrv loaded!'')]"

definition loadSio2man :: "platform \<Rightarrow> bool \<Rightarrow> stmt" where
  "loadSio2man env verbose = block
    [if_then verbose (TYRA_LOG ''IRX: Loading sio2man...''),
     exec_module env sio2man_irx ''Failed to load module: sio2man_irx'',
     if_then verbose (TYRA_LOG ''IRX: Sio2man loaded!'')]"

definition loadPadman :: "platform \<Rightarrow> bool \<Rightarrow> stmt" where
  "loadPadman env verbose = block
    [if_then verbose (TYRA_LOG ''IRX: Loading padman...''),
     exec_module env padman_irx ''Failed to load module: padman_irx'',
     if_then verbose (TYRA_LOG ''IRX: Padman loaded!'')]"

subsection \<open>The readiness poller\<close>

text \<open>
  \<open>delay\<close>: \<open>for (i = 0; i < count; i++) { ret = 0x01000000; while (ret--) asm(nop); }\<close>.
\<close>

function delay_loop :: "int \<Rightarrow> int \<Rightarrow> state \<Rightarrow> state" where
  "delay_loop i count s =
    (if i < count then delay_loop (i + 1) count (emit (Spin 0x01000000) s) else s)"
  by pat_completeness auto
termination
  by (relation "measure (\<lambda>(i, count, s). nat (count - i))") auto

declare delay_loop.simps [simp del]

definition delay :: "int \<Rightarrow> state \<Rightarrow> state" where
  "delay count s = delay_loop 0 count s"

text \<open>
  The loop of \<open>waitUntilUsbDeviceIsReady\<close>, on its two locals. \<open>retries\<close> only counts
  down from 50 to 0, so its width plays no part.
\<close>

function poll_loop :: "platform \<Rightarrow> c_int \<Rightarrow> int \<Rightarrow> state \<Rightarrow> state" where
  "poll_loop env ret retries s =
    (if ret \<noteq> 0 \<and> retries > 0
     then poll_loop env (stat env (io_history (trace s)) ''mass:/'') (retries - 1)
            (emit Nopdelay (emit (Stat ''mass:/'' (stat env (io_history (trace s)) ''mass:/'')) s))
     else s)"
  by pat_completeness auto
termination
  by (relation "measure (\<lambda>(env, ret, retries, s). nat retries)") auto

declare poll_loop.simps [simp del]

definition waitUntilUsbDeviceIsReady :: "platform \<Rightarrow> stmt" where
  "waitUntilUsbDeviceIsReady env s = Inr (poll_loop env (- 1) 50 (delay 5 s))"

subsection \<open>The optional batches\<close>

definition loadUsbModules :: "build_options \<Rightarrow> platform \<Rightarrow> bool \<Rightarrow> stmt" where
  "loadUsbModules cfg env verbose = block
    ([if_then verbose (TYRA_LOG ''IRX: Loading usb modules...'')] @
     (if USE_USBDMINI cfg then
        [exec_module env usbd_mini_irx ''Failed to load module: usbd_irx'',
         exec_module env usbmass_bd_mini_irx ''Failed to load module: usbmass'']
      else
        [exec_module env usbd_irx ''Failed to load module: usbd_irx'',
         exec_module env usbmass_bd_irx ''Failed to load module: usbmass'']) @
     [exec_module env bdm_irx ''Failed to load module: bdm_irx'',
      exec_module env bdmfs_fatfs_irx ''Failed to load module: bdmfs_fatfs'',
      waitUntilUsbDeviceIsReady env,
      if_then verbose (TYRA_LOG ''IRX: Usb modules loaded!'')])"

definition loadHddModules :: "build_options \<Rightarrow> platform \<Rightarrow> bool \<Rightarrow> stmt" where
  "loadHddModules cfg env verbose = block
    ([if_then verbose (TYRA_LOG ''IRX: Loading Hdd Modules!''),
      exec_module env ps2hdd_irx ''Failed to load module: ps2hdd_irx'',
      exec_module env ps2fs_irx ''Failed to load module: ps2fs_irx'',
      exec_module env ps2dev9_irx ''Failed to load module: ps2dev9_irx''] @
     (if ATAD cfg then
        [exec_module env ps2atad_irx ''Failed to load module: ps2atad.irx'']
      else []) @
     [if_then verbose (TYRA_LOG ''IRX: Hdd modules loaded'')])"

subsection \<open>loadAll\<close>

definition set_isLoaded :: stmt where
  "set_isLoaded s = Inr (s\<lparr>isLoaded := True\<rparr>)"

definition loadAll :: "build_options \<Rightarrow> platform \<Rightarrow> bool \<Rightarrow> bool \<Rightarrow> bool \<Rightarrow> stmt" where
  "loadAll cfg env withUsb withHdd isLoggingToFile s =
    (if isLoaded s then TYRA_LOG ''IRX modules already loaded!'' s
     else block
       [loadIO env (\<not> isLoggingToFile),
        loadSio2man env (\<not> isLoggingToFile),
        loadPadman env (\<not> isLoggingToFile),
        loadLibsd env (\<not> isLoggingToFile),
        if_then withUsb (loadUsbModules cfg env (\<not> isLoggingToFile)),
        if_then withHdd (loadHddModules cfg env (\<not> isLoggingToFile)),
        loadAudsrv env True,
        set_isLoaded] s)"

subsection \<open>Using the class\<close>

text \<open>Line 51: the static field starts out false; nothing has been issued yet.\<close>

definition initial_state :: state where
  "initial_state = \<lparr>isLoaded = False, trace = []\<rparr>"

text \<open>
  \<open>loadAll\<close> is a member function, so a bring-up constructs an \<open>IrxLoader\<close> and calls
  \<open>loadAll\<close> on it. A halt in the constructor ends the run.
\<close>

definition bring_up :: "build_options \<Rightarrow> platform \<Rightarrow> bool \<Rightarrow> bool \<Rightarrow> bool \<Rightarrow> state \<Rightarrow> outcome option" where
  "bring_up cfg env withUsb withHdd isLoggingToFile s =
    (case IrxLoader cfg env s of
       None \<Rightarrow> None
     | Some (Inl h) \<Rightarrow> Some (Inl h)
     | Some (Inr s1) \<Rightarrow> Some (loadAll cfg env withUsb withHdd isLoggingToFile s1))"

text \<open>
  A process reaches the class through its two public entry points, any number of times
  and in any order; it ends at the first halt.
\<close>

datatype call = New_IrxLoader | LoadAll bool bool bool

fun do_call :: "build_options \<Rightarrow> platform \<Rightarrow> call \<Rightarrow> state \<Rightarrow> outcome option" where
  "do_call cfg env New_IrxLoader s = IrxLoader cfg env s"
| "do_call cfg env (LoadAll withUsb withHdd isLoggingToFile) s =
     Some (loadAll cfg env withUsb withHdd isLoggingToFile s)"

fun run_calls :: "build_options \<Rightarrow> platform \<Rightarrow> call list \<Rightarrow> state \<Rightarrow> outcome option" where
  "run_calls cfg env [] s = Some (Inr s)"
| "run_calls cfg env (c # cs) s =
     (case do_call cfg env c s of
        None \<Rightarrow> None
      | Some (Inl h) \<Rightarrow> Some (Inl h)
      | Some (Inr s') \<Rightarrow> run_calls cfg env cs s')"

section \<open>Observing a run\<close>

text \<open>The state a call ended in, whether it returned or halted.\<close>

fun final :: "outcome \<Rightarrow> state" where
  "final (Inl (h, s)) = s"
| "final (Inr s) = s"

fun returned :: "outcome \<Rightarrow> bool" where
  "returned (Inl h) = False"
| "returned (Inr s) = True"

text \<open>What a call that started in \<open>s\<close> and ended in \<open>s'\<close> added to the trace.\<close>

definition new_events :: "state \<Rightarrow> state \<Rightarrow> event list" where
  "new_events s s' = drop (length (trace s)) (trace s')"

text \<open>The projections of a trace: module loads with the value the assertion read from
  \<open>ret\<close>, module loads with the value the call returned, capability toggles, probes,
  log lines, resets and synchronisations of the I/O processor.\<close>

fun execs :: "event list \<Rightarrow> (irx \<times> c_int) list" where
  "execs [] = []"
| "execs (Exec m result ret # es) = (m, ret) # execs es"
| "execs (e # es) = execs es"

fun exec_results :: "event list \<Rightarrow> (irx \<times> c_int) list" where
  "exec_results [] = []"
| "exec_results (Exec m result ret # es) = (m, result) # exec_results es"
| "exec_results (e # es) = exec_results es"

fun patches :: "event list \<Rightarrow> (sbv_patch \<times> c_int) list" where
  "patches [] = []"
| "patches (Patch p r # es) = (p, r) # patches es"
| "patches (e # es) = patches es"

fun stats :: "event list \<Rightarrow> c_int list" where
  "stats [] = []"
| "stats (Stat p r # es) = r # stats es"
| "stats (e # es) = stats es"

fun logs :: "event list \<Rightarrow> string list" where
  "logs [] = []"
| "logs (Log msg # es) = msg # logs es"
| "logs (e # es) = logs es"

fun resets :: "event list \<Rightarrow> c_int list" where
  "resets [] = []"
| "resets (IopReset a r # es) = r # resets es"
| "resets (e # es) = resets es"

fun syncs :: "event list \<Rightarrow> c_int list" where
  "syncs [] = []"
| "syncs (IopSync r # es) = r # syncs es"
| "syncs (e # es) = syncs es"

fun is_exec :: "event \<Rightarrow> bool" where
  "is_exec (Exec m result ret) = True"
| "is_exec e = False"

definition loads_issued :: "state \<Rightarrow> outcome \<Rightarrow> (irx \<times> c_int) list" where
  "loads_issued s out = execs (new_events s (final out))"

text \<open>One probe of the poller: the \<open>stat\<close> call and the \<open>nopdelay\<close> after it.\<close>

definition probe_events :: "c_int list \<Rightarrow> event list" where
  "probe_events rs = concat (map (\<lambda>r. [Stat ''mass:/'' r, Nopdelay]) rs)"

text \<open>
  \<open>fail_fast ms xs ok\<close>: the record \<open>xs\<close> of calls with their statuses is what
  going through the steps \<open>ms\<close> in order, and stopping at the first negative status,
  leaves behind; \<open>ok\<close> tells whether the end of \<open>ms\<close> was reached.
\<close>

fun fail_fast :: "'a list \<Rightarrow> ('a \<times> c_int) list \<Rightarrow> bool \<Rightarrow> bool" where
  "fail_fast [] [] ok = ok"
| "fail_fast (m # ms) [] ok = False"
| "fail_fast [] (x # xs) ok = False"
| "fail_fast (m # ms) ((m', r) # xs) ok =
     (m' = m \<and> (if 0 \<le> sint r then fail_fast ms xs ok else xs = [] \<and> \<not> ok))"

text \<open>\<open>a\<close> comes before every \<open>b\<close> in \<open>ms\<close>.\<close>

definition loaded_before :: "'a \<Rightarrow> 'a \<Rightarrow> 'a list \<Rightarrow> bool" where
  "loaded_before a b ms = (b \<notin> set ms \<or> a \<in> set (takeWhile (\<lambda>m. m \<noteq> b) ms))"

subsection \<open>The sequence the specification documents\<close>

text \<open>
  Written from the specification's state machine, to be compared with what \<open>loadAll\<close>
  issues: the required modules (I/O manager and file-I/O extension, serial I/O, pad,
  sound), the USB batch (driver, mass-storage bridge, block-device manager, FAT
  filesystem; one variant per build), the HDD batch (driver, filesystem, dev9 bridge,
  legacy ATA driver if configured) and the audio server.
\<close>

definition required_modules :: "irx list" where
  "required_modules = [iomanX_irx, fileXio_irx, sio2man_irx, padman_irx, libsd_irx]"

definition usb_batch :: "build_options \<Rightarrow> irx list" where
  "usb_batch cfg =
    (if USE_USBDMINI cfg then [usbd_mini_irx, usbmass_bd_mini_irx]
     else [usbd_irx, usbmass_bd_irx]) @
    [bdm_irx, bdmfs_fatfs_irx]"

definition hdd_batch :: "build_options \<Rightarrow> irx list" where
  "hdd_batch cfg =
    [ps2hdd_irx, ps2fs_irx, ps2dev9_irx] @ (if ATAD cfg then [ps2atad_irx] else [])"

definition module_sequence :: "build_options \<Rightarrow> bool \<Rightarrow> bool \<Rightarrow> irx list" where
  "module_sequence cfg withUsb withHdd =
    required_modules @ (if withUsb then usb_batch cfg else []) @
    (if withHdd then hdd_batch cfg else []) @ [audsrv_irx]"

definition patch_sequence :: "sbv_patch list" where
  "patch_sequence = [Enable_lmb, Disable_prefix_check, Fileio]"

subsection \<open>Summaries of statements\<close>

text \<open>
  \<open>loads env ms p f\<close>: from any state, the statement \<open>f\<close> leaves \<open>isLoaded\<close> alone,
  only extends the trace, toggles no capability, probes the device only if \<open>p\<close>, and
  its module loads go through \<open>ms\<close> and stop at the first negative value of
  \<open>ret\<close>, each such value being what the platform left there.
\<close>

definition summary :: "platform \<Rightarrow> irx list \<Rightarrow> bool \<Rightarrow> event list \<Rightarrow> bool \<Rightarrow> bool" where
  "summary env ms p d ok =
    (patches d = [] \<and> (\<not> p \<longrightarrow> stats d = []) \<and> fail_fast ms (execs d) ok \<and>
     (\<forall>x\<in>set (execs d). \<exists>h. snd x = ret_after env h (fst x)))"

definition run_of :: "platform \<Rightarrow> irx list \<Rightarrow> bool \<Rightarrow> state \<Rightarrow> outcome \<Rightarrow> bool" where
  "run_of env ms p s out =
    (isLoaded (final out) = isLoaded s \<and>
     (\<exists>d. trace (final out) = trace s @ d \<and> summary env ms p d (returned out)))"

definition loads :: "platform \<Rightarrow> irx list \<Rightarrow> bool \<Rightarrow> stmt \<Rightarrow> bool" where
  "loads env ms p f = (\<forall>s. run_of env ms p s (f s))"

text \<open>
  What the poll loop leaves behind: one probe after the other, no more than the budget,
  none after a probe that answered 0, and the budget used up unless one did.
\<close>

definition poll_record :: "platform \<Rightarrow> c_int \<Rightarrow> int \<Rightarrow> c_int list \<Rightarrow> bool" where
  "poll_record env ret retries rs =
    (int (length rs) \<le> max 0 retries \<and>
     (ret = 0 \<longrightarrow> rs = []) \<and>
     (\<forall>i<length rs. rs ! i = 0 \<longrightarrow> Suc i = length rs) \<and>
     (ret \<noteq> 0 \<and> int (length rs) < retries \<longrightarrow> rs \<noteq> [] \<and> last rs = 0) \<and>
     (\<forall>r\<in>set rs. \<exists>h. r = stat env h ''mass:/''))"

text \<open>The platform's answer to one toggle, and an outcome with the flag overwritten.\<close>

fun toggle :: "platform \<Rightarrow> sbv_patch \<Rightarrow> event list \<Rightarrow> c_int" where
  "toggle env Enable_lmb h = sbv_patch_enable_lmb env h"
| "toggle env Disable_prefix_check h = sbv_patch_disable_prefix_check env h"
| "toggle env Fileio h = sbv_patch_fileio env h"


text \<open>A loop that waits for a non-zero answer: zeros, then the answer that ended it.\<close>

definition waited :: "c_int list \<Rightarrow> bool" where
  "waited rs = (rs \<noteq> [] \<and> last rs \<noteq> 0 \<and> (\<forall>r\<in>set (butlast rs). r = 0))"

text \<open>
  What a construction that comes back has issued: under \<open>RESET_IOP\<close> the reset
  prelude, and in every build the toggles, which stop at the first negative status.
\<close>

definition reset_prelude :: "build_options \<Rightarrow> event list \<Rightarrow> bool" where
  "reset_prelude cfg d0 =
    (if RESET_IOP cfg then
       \<exists>rs ss. d0 = [InitRpc] @ map (IopReset (if IOP cfg then Some [] else None)) rs @
                    map IopSync ss @ [InitRpc] \<and> waited rs \<and> waited ss
     else d0 = [])"

text \<open>How a call ended: the failed assertion, if it halted.\<close>

fun verdict :: "outcome \<Rightarrow> failure option" where
  "verdict (Inl (h, s)) = Some h"
| "verdict (Inr s) = None"

text \<open>
  Two states with the same flag and the same calls into the platform, log lines aside;
  two outcomes that end the same way in such states; two statements that take such
  states to such outcomes.
\<close>

definition same_io :: "state \<Rightarrow> state \<Rightarrow> bool" where
  "same_io s t = (isLoaded s = isLoaded t \<and> io_history (trace s) = io_history (trace t))"

definition same_outcome :: "outcome \<Rightarrow> outcome \<Rightarrow> bool" where
  "same_outcome a b = (verdict a = verdict b \<and> same_io (final a) (final b))"

definition agree :: "stmt \<Rightarrow> stmt \<Rightarrow> bool" where
  "agree f g = (\<forall>s t. same_io s t \<longrightarrow> same_outcome (f s) (g t))"

text \<open>A statement that writes no log line.\<close>

definition silent :: "stmt \<Rightarrow> bool" where
  "silent f = (\<forall>s. logs (trace (final (f s))) = logs (trace s))"

subsection \<open>Test doubles\<close>

text \<open>
  A platform on which every toggle succeeds and the I/O processor answers at once; the
  load of the module \<open>failing\<close>, if any, returns -1 and stores -1, and every other load
  returns 0 and stores 0; an uninitialised \<open>int\<close> reads as 0; the device is ready from
  probe number \<open>ready_at\<close> on (counted from 0), or never.
\<close>

definition stub :: "irx option \<Rightarrow> nat option \<Rightarrow> platform" where
  "stub failing ready_at =
    \<lparr>SifIopReset = (\<lambda>h. 1),
     SifIopSync = (\<lambda>h. 1),
     sbv_patch_enable_lmb = (\<lambda>h. 0),
     sbv_patch_disable_prefix_check = (\<lambda>h. 0),
     sbv_patch_fileio = (\<lambda>h. 0),
     SifExecModuleBuffer = (\<lambda>h m. if Some m = failing then (- 1, Some (- 1)) else (0, Some 0)),
     uninitialised_int = (\<lambda>h. 0),
     stat = (\<lambda>h p. case ready_at of
                      None \<Rightarrow> - 1
                    | Some n \<Rightarrow> if n \<le> length (stats h) then 0 else - 1)\<rparr>"

definition standard_build :: build_options where
  "standard_build = \<lparr>RESET_IOP = False, IOP = False, USE_USBDMINI = False, ATAD = False\<rparr>"

definition full_build :: build_options where
  "full_build = \<lparr>RESET_IOP = True, IOP = True, USE_USBDMINI = True, ATAD = True\<rparr>"

section \<open>Lemmas\<close>

subsection \<open>Traces\<close>

lemma execs_append [simp]: "execs (xs @ ys) = execs xs @ execs ys"
  by (induction xs rule: execs.induct) simp_all

lemma patches_append [simp]: "patches (xs @ ys) = patches xs @ patches ys"
  by (induction xs rule: patches.induct) simp_all

lemma stats_append [simp]: "stats (xs @ ys) = stats xs @ stats ys"
  by (induction xs rule: stats.induct) simp_all

lemma logs_append [simp]: "logs (xs @ ys) = logs xs @ logs ys"
  by (induction xs rule: logs.induct) simp_all

lemma resets_append [simp]: "resets (xs @ ys) = resets xs @ resets ys"
  by (induction xs rule: resets.induct) simp_all

lemma syncs_append [simp]: "syncs (xs @ ys) = syncs xs @ syncs ys"
  by (induction xs rule: syncs.induct) simp_all

lemma io_history_append [simp]: "io_history (xs @ ys) = io_history xs @ io_history ys"
  by (simp add: io_history_def)

lemma new_events_append [simp]: "trace s' = trace s @ d \<Longrightarrow> new_events s s' = d"
  by (simp add: new_events_def)

lemma new_events_same [simp]: "new_events s s = []"
  by (simp add: new_events_def)

lemma execs_replicate_Spin [simp]: "execs (replicate n (Spin k)) = []"
  by (induction n) simp_all

lemma patches_replicate_Spin [simp]: "patches (replicate n (Spin k)) = []"
  by (induction n) simp_all

lemma stats_replicate_Spin [simp]: "stats (replicate n (Spin k)) = []"
  by (induction n) simp_all

lemma execs_probe_events [simp]: "execs (probe_events rs) = []"
  by (induction rs) (simp_all add: probe_events_def)

lemma patches_probe_events [simp]: "patches (probe_events rs) = []"
  by (induction rs) (simp_all add: probe_events_def)

lemma stats_probe_events [simp]: "stats (probe_events rs) = rs"
  by (induction rs) (simp_all add: probe_events_def)

subsection \<open>Stopping at the first failure\<close>

lemma fail_fast_append:
  "fail_fast ms1 xs1 True \<Longrightarrow> fail_fast ms2 xs2 ok \<Longrightarrow> fail_fast (ms1 @ ms2) (xs1 @ xs2) ok"
  by (induction ms1 xs1 "True" rule: fail_fast.induct) (auto split: if_splits)

lemma fail_fast_halt:
  "fail_fast ms1 xs1 False \<Longrightarrow> fail_fast (ms1 @ ms2) xs1 False"
  by (induction ms1 xs1 "False" rule: fail_fast.induct) (auto split: if_splits)

lemma fail_fast_prefix: "fail_fast ms xs ok \<Longrightarrow> prefix (map fst xs) ms"
  by (induction ms xs ok rule: fail_fast.induct) (auto split: if_splits)

lemma fail_fast_True:
  "fail_fast ms xs True \<Longrightarrow> map fst xs = ms \<and> (\<forall>x\<in>set xs. 0 \<le> sint (snd x))"
  by (induction ms xs "True" rule: fail_fast.induct) (auto split: if_splits)


lemma fail_fast_negative_last:
  "fail_fast ms xs ok \<Longrightarrow> i < length xs \<Longrightarrow> sint (snd (xs ! i)) < 0 \<Longrightarrow>
     Suc i = length xs \<and> \<not> ok"
  by (induction ms xs ok arbitrary: i rule: fail_fast.induct)
     (auto split: if_splits nat.splits simp: nth_Cons)

lemma fail_fast_returned:
  "fail_fast ms xs ok \<Longrightarrow> ok \<longleftrightarrow> (map fst xs = ms \<and> (\<forall>x\<in>set xs. 0 \<le> sint (snd x)))"
  by (induction ms xs ok rule: fail_fast.induct) (auto split: if_splits)

subsection \<open>Blocks\<close>

lemma block_append:
  "block (fs @ gs) s = (case block fs s of Inl h \<Rightarrow> Inl h | Inr s' \<Rightarrow> block gs s')"
  by (induction fs arbitrary: s) (simp_all split: sum.splits)

lemma summary_append:
  "summary env ms1 p1 d1 True \<Longrightarrow> summary env ms2 p2 d2 ok \<Longrightarrow>
     summary env (ms1 @ ms2) (p1 \<or> p2) (d1 @ d2) ok"
  by (auto simp: summary_def intro: fail_fast_append)

lemma summary_halt:
  "summary env ms1 p1 d1 False \<Longrightarrow> summary env (ms1 @ ms2) (p1 \<or> p2) d1 False"
  by (auto simp: summary_def intro: fail_fast_halt)

lemma loads_block_Nil: "loads env [] False (block [])"
  by (simp add: loads_def run_of_def summary_def)

lemma loads_block_Cons:
  assumes "loads env ms1 p1 f" and "loads env ms2 p2 (block fs)"
  shows "loads env (ms1 @ ms2) (p1 \<or> p2) (block (f # fs))"
  unfolding loads_def
proof
  fix s
  from assms(1) have "run_of env ms1 p1 s (f s)" by (simp add: loads_def)
  then obtain d1 where flag1: "isLoaded (final (f s)) = isLoaded s"
    and d1: "trace (final (f s)) = trace s @ d1"
    and sum1: "summary env ms1 p1 d1 (returned (f s))"
    unfolding run_of_def by blast
  show "run_of env (ms1 @ ms2) (p1 \<or> p2) s (block (f # fs) s)"
  proof (cases "f s")
    case (Inl h)
    then have "block (f # fs) s = f s" by simp
    moreover from Inl sum1 have "summary env (ms1 @ ms2) (p1 \<or> p2) d1 (returned (f s))"
      by (simp add: summary_halt)
    ultimately show ?thesis
      using flag1 d1 unfolding run_of_def by auto
  next
    case (Inr s')
    from assms(2) have "run_of env ms2 p2 s' (block fs s')" by (simp add: loads_def)
    then obtain d2 where flag2: "isLoaded (final (block fs s')) = isLoaded s'"
      and d2: "trace (final (block fs s')) = trace s' @ d2"
      and sum2: "summary env ms2 p2 d2 (returned (block fs s'))"
      unfolding run_of_def by blast
    from Inr have out: "block (f # fs) s = block fs s'" by simp
    from Inr sum1 sum2
    have "summary env (ms1 @ ms2) (p1 \<or> p2) (d1 @ d2) (returned (block fs s'))"
      by (simp add: summary_append)
    moreover from Inr d1 d2 have "trace (final (block fs s')) = trace s @ d1 @ d2" by simp
    moreover from Inr flag1 flag2 have "isLoaded (final (block fs s')) = isLoaded s" by simp
    ultimately show ?thesis
      unfolding run_of_def out by blast
  qed
qed

lemma loads_eq: "loads env ms' p' f \<Longrightarrow> ms' = ms \<Longrightarrow> p' = p \<Longrightarrow> loads env ms p f"
  by simp

lemma loads_log: "loads env [] False (if_then c (TYRA_LOG msg))"
  by (simp add: loads_def run_of_def summary_def if_then_def TYRA_LOG_def emit_def)

lemma loads_exec: "loads env [m] False (exec_module env m msg)"
  by (auto simp: loads_def run_of_def summary_def exec_module_def TYRA_ASSERT_def emit_def Let_def)

lemma loads_if_then: "loads env ms p f \<Longrightarrow> loads env (if c then ms else []) (c \<and> p) (if_then c f)"
  by (simp add: loads_def run_of_def summary_def if_then_def)

subsection \<open>Delay and polling\<close>

lemma delay_loop_trace:
  "\<exists>n. delay_loop i count s = s\<lparr>trace := trace s @ replicate n (Spin 0x01000000)\<rparr>"
proof (induction i count s rule: delay_loop.induct)
  case (1 i count s)
  show ?case
  proof (cases "i < count")
    case True
    let ?s = "emit (Spin 0x01000000) s"
    from 1 True obtain n where
      "delay_loop (i + 1) count ?s = ?s\<lparr>trace := trace ?s @ replicate n (Spin 0x01000000)\<rparr>"
      by blast
    with True have "delay_loop i count s = s\<lparr>trace := trace s @ replicate (Suc n) (Spin 0x01000000)\<rparr>"
      by (simp add: emit_def delay_loop.simps [of i count s])
    then show ?thesis by blast
  next
    case False
    then have "delay_loop i count s = s\<lparr>trace := trace s @ replicate 0 (Spin 0x01000000)\<rparr>"
      by (simp add: delay_loop.simps [of i count s])
    then show ?thesis by blast
  qed
qed

lemma poll_record_Nil: "ret = 0 \<or> retries \<le> 0 \<Longrightarrow> poll_record env ret retries []"
  by (auto simp: poll_record_def)

lemma poll_record_Cons:
  assumes "ret \<noteq> 0" and "0 < retries" and "poll_record env (stat env h ''mass:/'') (retries - 1) rs"
  shows "poll_record env ret retries (stat env h ''mass:/'' # rs)"
proof -
  let ?r = "stat env h ''mass:/''"
  from assms(3) have len: "int (length rs) \<le> max 0 (retries - 1)"
    and zero: "?r = 0 \<longrightarrow> rs = []"
    and stop: "\<forall>i<length rs. rs ! i = 0 \<longrightarrow> Suc i = length rs"
    and used: "?r \<noteq> 0 \<and> int (length rs) < retries - 1 \<longrightarrow> rs \<noteq> [] \<and> last rs = 0"
    and env: "\<forall>r\<in>set rs. \<exists>h. r = stat env h ''mass:/''"
    by (simp_all add: poll_record_def)
  from len assms(2) have 1: "int (length (?r # rs)) \<le> max 0 retries" by simp
  from zero stop have 2: "\<forall>i<length (?r # rs). (?r # rs) ! i = 0 \<longrightarrow> Suc i = length (?r # rs)"
    by (auto simp: nth_Cons split: nat.splits)
  from zero used have 3: "int (length (?r # rs)) < retries \<longrightarrow> last (?r # rs) = 0"
    by (cases "?r = 0") auto
  from env have 4: "\<forall>r\<in>set (?r # rs). \<exists>h. r = stat env h ''mass:/''" by auto
  from 1 2 3 4 assms(1) show ?thesis
    unfolding poll_record_def by blast
qed

lemma poll_loop_trace:
  "\<exists>rs. poll_loop env ret retries s = s\<lparr>trace := trace s @ probe_events rs\<rparr> \<and>
        poll_record env ret retries rs"
proof (induction env ret retries s rule: poll_loop.induct)
  case (1 env ret retries s)
  show ?case
  proof (cases "ret \<noteq> 0 \<and> retries > 0")
    case True
    define r where "r = stat env (io_history (trace s)) ''mass:/''"
    define s' where "s' = emit Nopdelay (emit (Stat ''mass:/'' r) s)"
    from 1 True obtain rs where rs: "poll_loop env r (retries - 1) s' = s'\<lparr>trace := trace s' @ probe_events rs\<rparr>"
      and rec: "poll_record env r (retries - 1) rs"
      unfolding r_def s'_def by blast
    from True rs have "poll_loop env ret retries s = s\<lparr>trace := trace s @ probe_events (r # rs)\<rparr>"
      by (simp add: r_def s'_def emit_def probe_events_def poll_loop.simps [of env ret retries s])
    moreover from True rec have "poll_record env ret retries (r # rs)"
      unfolding r_def by (simp add: poll_record_Cons)
    ultimately show ?thesis by blast
  next
    case False
    then have "poll_loop env ret retries s = s\<lparr>trace := trace s @ probe_events []\<rparr>"
      by (auto simp: probe_events_def poll_loop.simps [of env ret retries s])
    moreover from False have "poll_record env ret retries []"
      by (auto intro: poll_record_Nil)
    ultimately show ?thesis by blast
  qed
qed

lemma waitUntilUsbDeviceIsReady_trace:
  "\<exists>n rs. waitUntilUsbDeviceIsReady env s =
            Inr (s\<lparr>trace := trace s @ replicate n (Spin 0x01000000) @ probe_events rs\<rparr>) \<and>
          poll_record env (- 1) 50 rs"
proof -
  obtain n where d: "delay 5 s = s\<lparr>trace := trace s @ replicate n (Spin 0x01000000)\<rparr>"
    unfolding delay_def using delay_loop_trace by blast
  obtain rs where "poll_loop env (- 1) 50 (delay 5 s) = (delay 5 s)\<lparr>trace := trace (delay 5 s) @ probe_events rs\<rparr>"
    and "poll_record env (- 1) 50 rs"
    using poll_loop_trace by blast
  with d show ?thesis
    by (auto simp: waitUntilUsbDeviceIsReady_def)
qed

lemma loads_wait: "loads env [] True (waitUntilUsbDeviceIsReady env)"
  unfolding loads_def
proof
  fix s
  obtain n rs where "waitUntilUsbDeviceIsReady env s =
            Inr (s\<lparr>trace := trace s @ replicate n (Spin 0x01000000) @ probe_events rs\<rparr>)"
    using waitUntilUsbDeviceIsReady_trace by blast
  then show "run_of env [] True s (waitUntilUsbDeviceIsReady env s)"
    by (simp add: run_of_def summary_def)
qed

subsection \<open>The loaders\<close>

lemmas loads_intros = loads_block_Cons loads_block_Nil loads_log loads_exec loads_wait

lemma loads_loadLibsd: "loads env [libsd_irx] False (loadLibsd env verbose)"
  unfolding loadLibsd_def by (rule loads_eq) ((rule loads_intros)+, simp_all)

lemma loads_loadIO: "loads env [iomanX_irx, fileXio_irx] False (loadIO env verbose)"
  unfolding loadIO_def by (rule loads_eq) ((rule loads_intros)+, simp_all)

lemma loads_loadAudsrv: "loads env [audsrv_irx] False (loadAudsrv env verbose)"
  unfolding loadAudsrv_def by (rule loads_eq) ((rule loads_intros)+, simp_all)

lemma loads_loadSio2man: "loads env [sio2man_irx] False (loadSio2man env verbose)"
  unfolding loadSio2man_def by (rule loads_eq) ((rule loads_intros)+, simp_all)

lemma loads_loadPadman: "loads env [padman_irx] False (loadPadman env verbose)"
  unfolding loadPadman_def by (rule loads_eq) ((rule loads_intros)+, simp_all)

lemma loads_loadUsbModules: "loads env (usb_batch cfg) True (loadUsbModules cfg env verbose)"
proof (cases "USE_USBDMINI cfg")
  case True
  then show ?thesis
    unfolding loadUsbModules_def usb_batch_def
    by simp (rule loads_eq, (rule loads_intros)+, simp_all)
next
  case False
  then show ?thesis
    unfolding loadUsbModules_def usb_batch_def
    by simp (rule loads_eq, (rule loads_intros)+, simp_all)
qed

lemma loads_loadHddModules: "loads env (hdd_batch cfg) False (loadHddModules cfg env verbose)"
proof (cases "ATAD cfg")
  case True
  then show ?thesis
    unfolding loadHddModules_def hdd_batch_def
    by simp (rule loads_eq, (rule loads_intros)+, simp_all)
next
  case False
  then show ?thesis
    unfolding loadHddModules_def hdd_batch_def
    by simp (rule loads_eq, (rule loads_intros)+, simp_all)
qed

lemma loads_loadAll_steps:
  "loads env (module_sequence cfg withUsb withHdd) withUsb
     (block
       [loadIO env v1, loadSio2man env v2, loadPadman env v3, loadLibsd env v4,
        if_then withUsb (loadUsbModules cfg env v5),
        if_then withHdd (loadHddModules cfg env v6),
        loadAudsrv env v7])"
  unfolding module_sequence_def required_modules_def
  by (rule loads_eq)
     ((rule loads_block_Cons loads_block_Nil loads_loadIO loads_loadSio2man loads_loadPadman
        loads_loadLibsd loads_if_then loads_loadUsbModules loads_loadHddModules loads_loadAudsrv)+,
      simp_all)

text \<open>A call of \<open>loadAll\<close> with the flag not set.\<close>

lemma loadAll_first_call:
  assumes "\<not> isLoaded s"
  shows "\<exists>d. trace (final (loadAll cfg env withUsb withHdd isLoggingToFile s)) = trace s @ d \<and>
           summary env (module_sequence cfg withUsb withHdd) withUsb d
             (returned (loadAll cfg env withUsb withHdd isLoggingToFile s)) \<and>
           isLoaded (final (loadAll cfg env withUsb withHdd isLoggingToFile s)) =
             returned (loadAll cfg env withUsb withHdd isLoggingToFile s)"
proof -
  let ?v = "\<not> isLoggingToFile"
  let ?steps = "[loadIO env ?v, loadSio2man env ?v, loadPadman env ?v, loadLibsd env ?v,
        if_then withUsb (loadUsbModules cfg env ?v),
        if_then withHdd (loadHddModules cfg env ?v),
        loadAudsrv env True]"
  have run: "run_of env (module_sequence cfg withUsb withHdd) withUsb s (block ?steps s)"
    using loads_loadAll_steps [of env cfg withUsb withHdd ?v ?v ?v ?v ?v ?v True]
    by (simp add: loads_def)
  have all: "loadAll cfg env withUsb withHdd isLoggingToFile s =
      (case block ?steps s of Inl h \<Rightarrow> Inl h | Inr s' \<Rightarrow> set_isLoaded s')"
    using assms block_append [of ?steps "[set_isLoaded]" s]
    by (simp add: loadAll_def split: sum.splits)
  show ?thesis
  proof (cases "block ?steps s")
    case (Inl h)
    with run all assms show ?thesis
      by (cases h) (auto simp: run_of_def)
  next
    case (Inr s')
    with run all assms show ?thesis
      by (auto simp: run_of_def set_isLoaded_def)
  qed
qed

text \<open>A call of \<open>loadAll\<close> with the flag set.\<close>

lemma loadAll_loaded:
  "isLoaded s \<Longrightarrow> loadAll cfg env withUsb withHdd isLoggingToFile s =
     Inr (emit (Log ''IRX modules already loaded!'') s)"
  by (simp add: loadAll_def TYRA_LOG_def)

lemma distinct_module_sequence: "distinct (module_sequence cfg withUsb withHdd)"
  by (auto simp: module_sequence_def required_modules_def usb_batch_def hdd_batch_def)

lemma loadAll_first_call_issued:
  assumes "\<not> isLoaded s"
  shows "fail_fast (module_sequence cfg withUsb withHdd)
           (loads_issued s (loadAll cfg env withUsb withHdd isLoggingToFile s))
           (returned (loadAll cfg env withUsb withHdd isLoggingToFile s))"
    and "isLoaded (final (loadAll cfg env withUsb withHdd isLoggingToFile s)) =
           returned (loadAll cfg env withUsb withHdd isLoggingToFile s)"
    and "\<forall>x\<in>set (loads_issued s (loadAll cfg env withUsb withHdd isLoggingToFile s)).
           \<exists>h. snd x = ret_after env h (fst x)"
    and "patches (new_events s (final (loadAll cfg env withUsb withHdd isLoggingToFile s))) = []"
    and "\<not> withUsb \<Longrightarrow>
           stats (new_events s (final (loadAll cfg env withUsb withHdd isLoggingToFile s))) = []"
    and "prefix (trace s) (trace (final (loadAll cfg env withUsb withHdd isLoggingToFile s)))"
  using loadAll_first_call [OF assms, of cfg env withUsb withHdd isLoggingToFile]
  by (auto simp: summary_def loads_issued_def)



subsection \<open>Order within a batch\<close>

lemma loaded_before_prefix:
  assumes "prefix xs ys" and "loaded_before a b ys"
  shows "loaded_before a b xs"
proof (cases "b \<in> set xs")
  case True
  from assms(1) obtain zs where ys: "ys = xs @ zs" by (auto simp: prefix_def)
  with True assms(2) have "a \<in> set (takeWhile (\<lambda>m. m \<noteq> b) (xs @ zs))"
    by (auto simp: loaded_before_def)
  moreover from True have "takeWhile (\<lambda>m. m \<noteq> b) (xs @ zs) = takeWhile (\<lambda>m. m \<noteq> b) xs"
    by (intro takeWhile_append1 [of b]) simp_all
  ultimately show ?thesis by (simp add: loaded_before_def)
next
  case False
  then show ?thesis by (simp add: loaded_before_def)
qed

lemma run_of_issued:
  "run_of env ms p s out \<Longrightarrow> fail_fast ms (loads_issued s out) (returned out)"
  by (auto simp: run_of_def summary_def loads_issued_def)

subsection \<open>applyRpcPatches and the constructor\<close>

lemma applyRpcPatches_run:
  "\<exists>d. trace (final (discard (applyRpcPatches env s))) = trace s @ d \<and>
       d = map (\<lambda>(p, r). Patch p r) (patches d) \<and>
       fail_fast patch_sequence (patches d) (returned (discard (applyRpcPatches env s))) \<and>
       (\<forall>x\<in>set (patches d). \<exists>h. snd x = toggle env (fst x) h) \<and>
       (\<forall>ret s'. applyRpcPatches env s = Inr (ret, s') \<longrightarrow> ret = snd (last (patches d))) \<and>
       isLoaded (final (discard (applyRpcPatches env s))) = isLoaded s"
proof -
  define r1 where "r1 = sbv_patch_enable_lmb env (io_history (trace s))"
  define s1 where "s1 = emit (Patch Enable_lmb r1) s"
  define r2 where "r2 = sbv_patch_disable_prefix_check env (io_history (trace s1))"
  define s2 where "s2 = emit (Patch Disable_prefix_check r2) s1"
  define r3 where "r3 = sbv_patch_fileio env (io_history (trace s2))"
  define s3 where "s3 = emit (Patch Fileio r3) s2"
  have t1: "r1 = toggle env Enable_lmb (io_history (trace s))"
    and t2: "r2 = toggle env Disable_prefix_check (io_history (trace s1))"
    and t3: "r3 = toggle env Fileio (io_history (trace s2))"
    by (simp_all add: r1_def r2_def r3_def)
  have tr: "trace s1 = trace s @ [Patch Enable_lmb r1]"
    "trace s2 = trace s @ [Patch Enable_lmb r1, Patch Disable_prefix_check r2]"
    "trace s3 = trace s @ [Patch Enable_lmb r1, Patch Disable_prefix_check r2, Patch Fileio r3]"
    "isLoaded s1 = isLoaded s" "isLoaded s2 = isLoaded s" "isLoaded s3 = isLoaded s"
    by (simp_all add: s1_def s2_def s3_def emit_def)
  consider (a) "sint r1 < 0" | (b) "0 \<le> sint r1" "sint r2 < 0"
    | (c) "0 \<le> sint r1" "0 \<le> sint r2" "sint r3 < 0"
    | (d) "0 \<le> sint r1" "0 \<le> sint r2" "0 \<le> sint r3"
    by linarith
  then show ?thesis
  proof cases
    case a
    then have "applyRpcPatches env s =
        Inl (AssertFailed ''Failed to load Applying SBV Patches sbv_patch_enable_lmb'', s1)"
      by (simp add: applyRpcPatches_def TYRA_ASSERT_def Let_def r1_def s1_def)
    with a tr t1 show ?thesis
      by (intro exI [of _ "[Patch Enable_lmb r1]"])
         (auto simp: discard_def patch_sequence_def)
  next
    case b
    then have "applyRpcPatches env s =
        Inl (AssertFailed ''Failed to load Applying SBV Patches sbv_patch_disable_prefix_check'', s2)"
      by (simp add: applyRpcPatches_def TYRA_ASSERT_def Let_def r1_def s1_def r2_def s2_def)
    with b tr t1 t2 show ?thesis
      by (intro exI [of _ "[Patch Enable_lmb r1, Patch Disable_prefix_check r2]"])
         (auto simp: discard_def patch_sequence_def)
  next
    case c
    then have "applyRpcPatches env s =
        Inl (AssertFailed ''Failed to load Applying SBV Patches sbv_patch_fileio'', s3)"
      by (simp add: applyRpcPatches_def TYRA_ASSERT_def Let_def r1_def s1_def r2_def s2_def
          r3_def s3_def)
    with c tr t1 t2 t3 show ?thesis
      by (intro exI [of _ "[Patch Enable_lmb r1, Patch Disable_prefix_check r2, Patch Fileio r3]"])
         (auto simp: discard_def patch_sequence_def)
  next
    case d
    then have "applyRpcPatches env s = Inr (r3, s3)"
      by (simp add: applyRpcPatches_def TYRA_ASSERT_def Let_def r1_def s1_def r2_def s2_def
          r3_def s3_def)
    with d tr t1 t2 t3 show ?thesis
      by (intro exI [of _ "[Patch Enable_lmb r1, Patch Disable_prefix_check r2, Patch Fileio r3]"])
         (auto simp: discard_def patch_sequence_def)
  qed
qed


lemma projections_IopReset [simp]:
  "execs (map (IopReset a) rs) = []" "patches (map (IopReset a) rs) = []"
  "resets (map (IopReset a) rs) = rs" "syncs (map (IopReset a) rs) = []"
  by (induction rs) simp_all

lemma projections_IopSync [simp]:
  "execs (map IopSync rs) = []" "patches (map IopSync rs) = []"
  "resets (map IopSync rs) = []" "syncs (map IopSync rs) = rs"
  by (induction rs) simp_all

lemma projections_Patch [simp]:
  "execs (map (\<lambda>(p, r). Patch p r) ps) = []" "patches (map (\<lambda>(p, r). Patch p r) ps) = ps"
  "resets (map (\<lambda>(p, r). Patch p r) ps) = []" "syncs (map (\<lambda>(p, r). Patch p r) ps) = []"
  by (induction ps) auto

lemma emit_flag: "emit e (s\<lparr>isLoaded := b\<rparr>) = (emit e s)\<lparr>isLoaded := b\<rparr>"
  by (simp add: emit_def)

lemma waited_single: "r \<noteq> 0 \<Longrightarrow> waited [r]"
  by (simp add: waited_def)

lemma waited_Cons: "waited rs \<Longrightarrow> waited (0 # rs)"
  by (auto simp: waited_def)

lemma iop_reset_loop_run:
  assumes "iop_reset_loop arg env s = Some s'"
  shows "isLoaded s' = isLoaded s \<and>
         (\<exists>rs. trace s' = trace s @ map (IopReset arg) rs \<and> waited rs) \<and>
         iop_reset_loop arg env (s\<lparr>isLoaded := b\<rparr>) = Some (s'\<lparr>isLoaded := b\<rparr>)"
  using assms
proof (induction arg env s s' rule: iop_reset_loop.raw_induct)
  case (1 loop arg env s s')
  show ?case
  proof (cases "SifIopReset env (io_history (trace s)) = 0")
    case True
    let ?s = "emit (IopReset arg 0) s"
    from True 1(2) have "loop arg env ?s = Some s'" by simp
    moreover from True 1(3) have "iop_reset_loop arg env ?s = Some s'"
      by (subst (asm) iop_reset_loop.simps) simp
    ultimately obtain rs where flag: "isLoaded s' = isLoaded ?s"
      and tr: "trace s' = trace ?s @ map (IopReset arg) rs" and w: "waited rs"
      and b: "iop_reset_loop arg env (?s\<lparr>isLoaded := b\<rparr>) = Some (s'\<lparr>isLoaded := b\<rparr>)"
      using 1(1) by blast
    from tr have "trace s' = trace s @ map (IopReset arg) (0 # rs)"
      by (simp add: emit_def)
    moreover from w have "waited (0 # rs)" by (rule waited_Cons)
    moreover from flag have "isLoaded s' = isLoaded s" by (simp add: emit_def)
    moreover from True b have "iop_reset_loop arg env (s\<lparr>isLoaded := b\<rparr>) = Some (s'\<lparr>isLoaded := b\<rparr>)"
      by (subst iop_reset_loop.simps) (simp add: emit_flag)
    ultimately show ?thesis by blast
  next
    case False
    let ?r = "SifIopReset env (io_history (trace s))"
    from False 1(2) have s': "s' = emit (IopReset arg ?r) s" by simp
    then have "trace s' = trace s @ map (IopReset arg) [?r]"
      by (simp add: emit_def)
    moreover from False have "waited [?r]" by (rule waited_single)
    moreover from s' have "isLoaded s' = isLoaded s" by (simp add: emit_def)
    moreover from False s' have "iop_reset_loop arg env (s\<lparr>isLoaded := b\<rparr>) = Some (s'\<lparr>isLoaded := b\<rparr>)"
      by (subst iop_reset_loop.simps) (simp add: emit_def)
    ultimately show ?thesis by blast
  qed
qed (rule assms)

lemma iop_sync_loop_run:
  assumes "iop_sync_loop env s = Some s'"
  shows "isLoaded s' = isLoaded s \<and>
         (\<exists>rs. trace s' = trace s @ map IopSync rs \<and> waited rs) \<and>
         iop_sync_loop env (s\<lparr>isLoaded := b\<rparr>) = Some (s'\<lparr>isLoaded := b\<rparr>)"
  using assms
proof (induction env s s' rule: iop_sync_loop.raw_induct)
  case (1 loop env s s')
  show ?case
  proof (cases "SifIopSync env (io_history (trace s)) = 0")
    case True
    let ?s = "emit (IopSync 0) s"
    from True 1(2) have "loop env ?s = Some s'" by simp
    moreover from True 1(3) have "iop_sync_loop env ?s = Some s'"
      by (subst (asm) iop_sync_loop.simps) simp
    ultimately obtain rs where flag: "isLoaded s' = isLoaded ?s"
      and tr: "trace s' = trace ?s @ map IopSync rs" and w: "waited rs"
      and b: "iop_sync_loop env (?s\<lparr>isLoaded := b\<rparr>) = Some (s'\<lparr>isLoaded := b\<rparr>)"
      using 1(1) by blast
    from tr have "trace s' = trace s @ map IopSync (0 # rs)"
      by (simp add: emit_def)
    moreover from w have "waited (0 # rs)" by (rule waited_Cons)
    moreover from flag have "isLoaded s' = isLoaded s" by (simp add: emit_def)
    moreover from True b have "iop_sync_loop env (s\<lparr>isLoaded := b\<rparr>) = Some (s'\<lparr>isLoaded := b\<rparr>)"
      by (subst iop_sync_loop.simps) (simp add: emit_flag)
    ultimately show ?thesis by blast
  next
    case False
    let ?r = "SifIopSync env (io_history (trace s))"
    from False 1(2) have s': "s' = emit (IopSync ?r) s" by simp
    then have "trace s' = trace s @ map IopSync [?r]"
      by (simp add: emit_def)
    moreover from False have "waited [?r]" by (rule waited_single)
    moreover from s' have "isLoaded s' = isLoaded s" by (simp add: emit_def)
    moreover from False s' have "iop_sync_loop env (s\<lparr>isLoaded := b\<rparr>) = Some (s'\<lparr>isLoaded := b\<rparr>)"
      by (subst iop_sync_loop.simps) (simp add: emit_def)
    ultimately show ?thesis by blast
  qed
qed (rule assms)

lemma iop_reset_loop_answered:
  "SifIopReset env (io_history (trace s)) \<noteq> 0 \<Longrightarrow> iop_reset_loop arg env s \<noteq> None"
  by (subst iop_reset_loop.simps) simp

lemma iop_sync_loop_answered:
  "SifIopSync env (io_history (trace s)) \<noteq> 0 \<Longrightarrow> iop_sync_loop env s \<noteq> None"
  by (subst iop_sync_loop.simps) simp

lemma IrxLoader_run:
  assumes "IrxLoader cfg env s = Some out"
  shows "\<exists>d0 d. trace (final out) = trace s @ d0 @ d \<and> reset_prelude cfg d0 \<and>
           d = map (\<lambda>(p, r). Patch p r) (patches d) \<and>
           fail_fast patch_sequence (patches d) (returned out) \<and>
           (\<forall>x\<in>set (patches d). \<exists>h. snd x = toggle env (fst x) h) \<and>
           isLoaded (final out) = isLoaded s"
proof (cases "RESET_IOP cfg")
  case False
  with assms have out: "out = discard (applyRpcPatches env s)"
    by (simp add: IrxLoader_def)
  from applyRpcPatches_run [of env s] obtain d where
    "trace (final out) = trace s @ [] @ d" "d = map (\<lambda>(p, r). Patch p r) (patches d)"
    "fail_fast patch_sequence (patches d) (returned out)"
    "\<forall>x\<in>set (patches d). \<exists>h. snd x = toggle env (fst x) h"
    "isLoaded (final out) = isLoaded s"
    unfolding out by auto
  moreover from False have "reset_prelude cfg []" by (simp add: reset_prelude_def)
  ultimately show ?thesis by blast
next
  case True
  let ?arg = "if IOP cfg then Some [] else None"
  from True assms obtain s1 s2 where s1: "iop_reset_loop ?arg env (SifInitRpc s) = Some s1"
    and s2: "iop_sync_loop env s1 = Some s2"
    and out: "out = discard (applyRpcPatches env (SifInitRpc s2))"
    by (auto simp: IrxLoader_def split: option.splits)
  from iop_reset_loop_run [OF s1] obtain rs where f1: "isLoaded s1 = isLoaded (SifInitRpc s)"
    and t1: "trace s1 = trace (SifInitRpc s) @ map (IopReset ?arg) rs" and rs: "waited rs"
    by blast
  from iop_sync_loop_run [OF s2] obtain ss where f2: "isLoaded s2 = isLoaded s1"
    and t2: "trace s2 = trace s1 @ map IopSync ss" and ss: "waited ss"
    by blast
  let ?d0 = "[InitRpc] @ map (IopReset ?arg) rs @ map IopSync ss @ [InitRpc]"
  from t1 t2 have t3: "trace (SifInitRpc s2) = trace s @ ?d0"
    by (simp add: SifInitRpc_def emit_def)
  from f1 f2 have f3: "isLoaded (SifInitRpc s2) = isLoaded s"
    by (simp add: SifInitRpc_def emit_def)
  from applyRpcPatches_run [of env "SifInitRpc s2"] obtain d where
    "trace (final out) = trace (SifInitRpc s2) @ d" "d = map (\<lambda>(p, r). Patch p r) (patches d)"
    "fail_fast patch_sequence (patches d) (returned out)"
    "\<forall>x\<in>set (patches d). \<exists>h. snd x = toggle env (fst x) h"
    "isLoaded (final out) = isLoaded (SifInitRpc s2)"
    unfolding out by auto
  with t3 f3 have "trace (final out) = trace s @ ?d0 @ d" "d = map (\<lambda>(p, r). Patch p r) (patches d)"
    "fail_fast patch_sequence (patches d) (returned out)"
    "\<forall>x\<in>set (patches d). \<exists>h. snd x = toggle env (fst x) h"
    "isLoaded (final out) = isLoaded s"
    by simp_all
  moreover from True rs ss have "reset_prelude cfg ?d0"
    unfolding reset_prelude_def by auto
  ultimately show ?thesis by blast
qed


lemma IrxLoader_returns:
  assumes "\<not> RESET_IOP cfg \<or> (\<forall>h. SifIopReset env h \<noteq> 0 \<and> SifIopSync env h \<noteq> 0)"
  shows "IrxLoader cfg env s \<noteq> None"
proof (cases "RESET_IOP cfg")
  case False
  then show ?thesis by (simp add: IrxLoader_def)
next
  case True
  with assms have ans: "\<forall>h. SifIopReset env h \<noteq> 0 \<and> SifIopSync env h \<noteq> 0" by simp
  let ?arg = "if IOP cfg then Some [] else None"
  from ans have "iop_reset_loop ?arg env (SifInitRpc s) \<noteq> None"
    by (simp add: iop_reset_loop_answered)
  then obtain s1 where s1: "iop_reset_loop ?arg env (SifInitRpc s) = Some s1" by blast
  from ans have "iop_sync_loop env s1 \<noteq> None"
    by (simp add: iop_sync_loop_answered)
  then obtain s2 where s2: "iop_sync_loop env s1 = Some s2" by blast
  from True s1 s2 show ?thesis
    by (simp add: IrxLoader_def)
qed

lemma IrxLoader_events:
  assumes "IrxLoader cfg env s = Some out"
  shows "\<exists>dc. trace (final out) = trace s @ dc \<and> execs dc = [] \<and>
           fail_fast patch_sequence (patches dc) (returned out) \<and>
           (\<forall>x\<in>set (patches dc). \<exists>h. snd x = toggle env (fst x) h) \<and>
           (if RESET_IOP cfg then waited (resets dc) \<and> waited (syncs dc)
            else resets dc = [] \<and> syncs dc = []) \<and>
           isLoaded (final out) = isLoaded s"
proof -
  from IrxLoader_run [OF assms] obtain d0 d where tr: "trace (final out) = trace s @ d0 @ d"
    and d0: "reset_prelude cfg d0"
    and d: "d = map (\<lambda>(p, r). Patch p r) (patches d)"
    and ff: "fail_fast patch_sequence (patches d) (returned out)"
    and env: "\<forall>x\<in>set (patches d). \<exists>h. snd x = toggle env (fst x) h"
    and flag: "isLoaded (final out) = isLoaded s"
    by blast
  from d have q: "execs d = []" "resets d = []" "syncs d = []"
    by (metis projections_Patch(1), metis projections_Patch(3), metis projections_Patch(4))
  from d0 have p: "execs d0 = []" "patches d0 = []"
    "if RESET_IOP cfg then waited (resets d0) \<and> waited (syncs d0) else resets d0 = [] \<and> syncs d0 = []"
    by (auto simp: reset_prelude_def split: if_splits)
  from tr have "trace (final out) = trace s @ (d0 @ d)" by simp
  moreover from p q have "execs (d0 @ d) = []" by simp
  moreover from p ff have "fail_fast patch_sequence (patches (d0 @ d)) (returned out)" by simp
  moreover from p env have "\<forall>x\<in>set (patches (d0 @ d)). \<exists>h. snd x = toggle env (fst x) h" by simp
  moreover from p q have "if RESET_IOP cfg then waited (resets (d0 @ d)) \<and> waited (syncs (d0 @ d))
            else resets (d0 @ d) = [] \<and> syncs (d0 @ d) = []"
    by (simp split: if_splits)
  ultimately show ?thesis using flag by blast
qed


lemma execs_empty_iff: "execs xs = [] \<longleftrightarrow> (\<forall>e\<in>set xs. \<not> is_exec e)"
  by (induction xs rule: execs.induct) simp_all

lemma execs_dropWhile [simp]: "execs (dropWhile (\<lambda>e. \<not> is_exec e) xs) = execs xs"
  by (induction xs rule: execs.induct) simp_all

lemma patches_takeWhile: "patches xs = [] \<Longrightarrow> patches (takeWhile P xs) = []"
  by (induction xs rule: patches.induct) simp_all

lemma patches_dropWhile: "patches xs = [] \<Longrightarrow> patches (dropWhile P xs) = []"
  by (induction xs rule: patches.induct) simp_all

lemma split_at_first_exec:
  assumes "execs xs = []"
  shows "takeWhile (\<lambda>e. \<not> is_exec e) (xs @ ys) = xs @ takeWhile (\<lambda>e. \<not> is_exec e) ys"
    and "dropWhile (\<lambda>e. \<not> is_exec e) (xs @ ys) = dropWhile (\<lambda>e. \<not> is_exec e) ys"
  using assms by (simp_all add: execs_empty_iff)

lemma iop_reset_loop_exit:
  "SifIopReset env (io_history (trace s)) \<noteq> 0 \<Longrightarrow>
     iop_reset_loop arg env s = Some (emit (IopReset arg (SifIopReset env (io_history (trace s)))) s)"
  by (subst iop_reset_loop.simps) simp

lemma iop_sync_loop_exit:
  "SifIopSync env (io_history (trace s)) \<noteq> 0 \<Longrightarrow>
     iop_sync_loop env s = Some (emit (IopSync (SifIopSync env (io_history (trace s)))) s)"
  by (subst iop_sync_loop.simps) simp

subsection \<open>Bring-up runs and processes\<close>

lemma loadAll_events:
  "\<exists>dl. trace (final (loadAll cfg env withUsb withHdd isLoggingToFile s)) = trace s @ dl \<and>
        patches dl = [] \<and>
        (isLoaded s \<longrightarrow> execs dl = [] \<and>
           loadAll cfg env withUsb withHdd isLoggingToFile s = Inr (emit (Log ''IRX modules already loaded!'') s)) \<and>
        (\<not> isLoaded s \<longrightarrow>
           fail_fast (module_sequence cfg withUsb withHdd) (execs dl)
             (returned (loadAll cfg env withUsb withHdd isLoggingToFile s)) \<and>
           isLoaded (final (loadAll cfg env withUsb withHdd isLoggingToFile s)) =
             returned (loadAll cfg env withUsb withHdd isLoggingToFile s))"
proof (cases "isLoaded s")
  case True
  then have "loadAll cfg env withUsb withHdd isLoggingToFile s =
      Inr (emit (Log ''IRX modules already loaded!'') s)"
    by (rule loadAll_loaded)
  with True show ?thesis
    by (intro exI [of _ "[Log ''IRX modules already loaded!'']"]) (simp add: emit_def)
next
  case False
  from loadAll_first_call [OF False, of cfg env withUsb withHdd isLoggingToFile]
  show ?thesis using False by (auto simp: summary_def)
qed

lemma run_calls_loaded:
  assumes "isLoaded s" and "run_calls cfg env cs s = Some out"
  shows "isLoaded (final out) \<and> (\<exists>d. trace (final out) = trace s @ d \<and> execs d = [])"
  using assms
proof (induction cs arbitrary: s)
  case Nil
  then show ?case by auto
next
  case (Cons c cs)
  from Cons.prems(2) obtain c_out where c_out: "do_call cfg env c s = Some c_out"
    by (auto split: option.splits)
  have step: "isLoaded (final c_out) \<and> (\<exists>d. trace (final c_out) = trace s @ d \<and> execs d = [])"
  proof (cases c)
    case New_IrxLoader
    with c_out have "IrxLoader cfg env s = Some c_out" by simp
    from IrxLoader_events [OF this] Cons.prems(1) show ?thesis by auto
  next
    case (LoadAll withUsb withHdd isLoggingToFile)
    with c_out Cons.prems(1) have "c_out = Inr (emit (Log ''IRX modules already loaded!'') s)"
      by (simp add: loadAll_loaded)
    with Cons.prems(1) show ?thesis by (simp add: emit_def)
  qed
  show ?case
  proof (cases c_out)
    case (Inl h)
    with c_out Cons.prems(2) have "out = c_out" by simp
    with step show ?thesis by simp
  next
    case (Inr s')
    with c_out Cons.prems(2) have rest: "run_calls cfg env cs s' = Some out" by simp
    from Inr step obtain d where s': "isLoaded s'" "trace s' = trace s @ d" "execs d = []"
      by auto
    from Cons.IH [OF s'(1) rest] obtain d' where "isLoaded (final out)"
      "trace (final out) = trace s' @ d'" "execs d' = []"
      by blast
    with s' have "isLoaded (final out)" "trace (final out) = trace s @ (d @ d')" "execs (d @ d') = []"
      by simp_all
    then show ?thesis by blast
  qed
qed

text \<open>The loads of a process are distinct as long as nothing was loaded before the flag is set.\<close>

lemma run_calls_once:
  assumes "isLoaded s \<or> execs (trace s) = []"
    and "distinct (map fst (execs (trace s)))"
    and "run_calls cfg env cs s = Some out"
  shows "distinct (map fst (execs (trace (final out))))"
  using assms
proof (induction cs arbitrary: s)
  case Nil
  then show ?case by auto
next
  case (Cons c cs)
  show ?case
  proof (cases "isLoaded s")
    case True
    from run_calls_loaded [OF True Cons.prems(3)] obtain d where
      "trace (final out) = trace s @ d" "execs d = []"
      by blast
    with Cons.prems(2) show ?thesis by simp
  next
    case False
    with Cons.prems(1) have none: "execs (trace s) = []" by simp
    from Cons.prems(3) obtain c_out where c_out: "do_call cfg env c s = Some c_out"
      by (auto split: option.splits)
    have step: "distinct (map fst (execs (trace (final c_out)))) \<and>
        (returned c_out \<longrightarrow> isLoaded (final c_out) \<or> execs (trace (final c_out)) = [])"
    proof (cases c)
      case New_IrxLoader
      with c_out have "IrxLoader cfg env s = Some c_out" by simp
      from IrxLoader_events [OF this] none show ?thesis by auto
    next
      case (LoadAll withUsb withHdd isLoggingToFile)
      with c_out have out: "c_out = loadAll cfg env withUsb withHdd isLoggingToFile s" by simp
      from loadAll_events [of cfg env withUsb withHdd isLoggingToFile s] False out
      obtain dl where dl: "trace (final c_out) = trace s @ dl"
        and ff: "fail_fast (module_sequence cfg withUsb withHdd) (execs dl) (returned c_out)"
        and flag: "isLoaded (final c_out) = returned c_out"
        by auto
      from ff have "prefix (map fst (execs dl)) (module_sequence cfg withUsb withHdd)"
        by (rule fail_fast_prefix)
      then obtain zs where "module_sequence cfg withUsb withHdd = map fst (execs dl) @ zs"
        by (auto simp: prefix_def)
      with distinct_module_sequence [of cfg withUsb withHdd]
      have "distinct (map fst (execs dl))" by simp
      with dl none flag show ?thesis by simp
    qed
    show ?thesis
    proof (cases c_out)
      case (Inl h)
      with c_out Cons.prems(3) have "out = c_out" by simp
      with step show ?thesis by simp
    next
      case (Inr s')
      with c_out Cons.prems(3) have rest: "run_calls cfg env cs s' = Some out" by simp
      from Inr step have "isLoaded s' \<or> execs (trace s') = []"
        and "distinct (map fst (execs (trace s')))"
        by simp_all
      then show ?thesis using rest by (rule Cons.IH)
    qed
  qed
qed

subsection \<open>Logging\<close>

lemma execs_io_history [simp]: "execs (io_history xs) = execs xs"
  unfolding io_history_def by (induction xs rule: execs.induct) simp_all

lemma delay_loop_exact:
  "delay_loop i count s = s\<lparr>trace := trace s @ replicate (nat (count - i)) (Spin 0x01000000)\<rparr>"
proof (induction i count s rule: delay_loop.induct)
  case (1 i count s)
  show ?case
  proof (cases "i < count")
    case True
    then have n: "nat (count - i) = Suc (nat (count - (i + 1)))" by simp
    from True have "delay_loop i count s = delay_loop (i + 1) count (emit (Spin 0x01000000) s)"
      by (simp add: delay_loop.simps [of i count s])
    also from 1 True have "\<dots> = (emit (Spin 0x01000000) s)\<lparr>trace :=
        trace (emit (Spin 0x01000000) s) @ replicate (nat (count - (i + 1))) (Spin 0x01000000)\<rparr>"
      by simp
    finally show ?thesis
      unfolding n by (simp add: emit_def)
  next
    case False
    then show ?thesis by (simp add: delay_loop.simps [of i count s])
  qed
qed

lemma same_io_emit: "same_io s t \<Longrightarrow> same_io (emit e s) (emit e t)"
  by (simp add: same_io_def emit_def)

lemma same_io_log: "same_io s t \<Longrightarrow> same_io (emit (Log m) s) t"
  "same_io s t \<Longrightarrow> same_io s (emit (Log m) t)"
  by (simp_all add: same_io_def emit_def io_history_def)

lemma same_io_delay: "same_io s t \<Longrightarrow> same_io (delay n s) (delay n t)"
  by (simp add: delay_def delay_loop_exact same_io_def)

lemma same_io_poll_loop:
  "same_io s t \<Longrightarrow> same_io (poll_loop env ret retries s) (poll_loop env ret retries t)"
proof (induction env ret retries s arbitrary: t rule: poll_loop.induct)
  case (1 env ret retries s)
  show ?case
  proof (cases "ret \<noteq> 0 \<and> retries > 0")
    case True
    from 1(2) have h: "io_history (trace t) = io_history (trace s)" by (simp add: same_io_def)
    let ?r = "stat env (io_history (trace s)) ''mass:/''"
    from 1(2) have "same_io (emit Nopdelay (emit (Stat ''mass:/'' ?r) s))
        (emit Nopdelay (emit (Stat ''mass:/'' ?r) t))"
      by (intro same_io_emit)
    from 1(1) [OF True this] True h show ?thesis
      by (simp add: poll_loop.simps [of env ret retries s] poll_loop.simps [of env ret retries t])
  next
    case False
    with 1(2) show ?thesis
      by (auto simp: poll_loop.simps [of env ret retries s] poll_loop.simps [of env ret retries t])
  qed
qed

lemma agree_log: "agree (if_then c (TYRA_LOG m)) (if_then c' (TYRA_LOG m'))"
  by (simp add: agree_def same_outcome_def if_then_def TYRA_LOG_def same_io_log)

lemma agree_exec: "agree (exec_module env m msg) (exec_module env m msg)"
  by (auto simp: agree_def same_outcome_def exec_module_def TYRA_ASSERT_def Let_def
      same_io_def emit_def)

lemma agree_wait: "agree (waitUntilUsbDeviceIsReady env) (waitUntilUsbDeviceIsReady env)"
  by (simp add: agree_def same_outcome_def waitUntilUsbDeviceIsReady_def same_io_poll_loop
      same_io_delay)

lemma agree_if_then: "agree f g \<Longrightarrow> agree (if_then c f) (if_then c g)"
  by (simp add: agree_def same_outcome_def if_then_def)

lemma agree_set_isLoaded: "agree set_isLoaded set_isLoaded"
  by (simp add: agree_def same_outcome_def set_isLoaded_def same_io_def)

lemma agree_block_Nil: "agree (block []) (block [])"
  by (simp add: agree_def same_outcome_def)

lemma agree_block_Cons:
  assumes "agree f g" and "agree (block fs) (block gs)"
  shows "agree (block (f # fs)) (block (g # gs))"
  unfolding agree_def
proof (intro allI impI)
  fix s t
  assume "same_io s t"
  with assms(1) have fg: "same_outcome (f s) (g t)" by (simp add: agree_def)
  show "same_outcome (block (f # fs) s) (block (g # gs) t)"
  proof (cases "f s")
    case (Inl h)
    with fg obtain h' where "g t = Inl h'" by (cases "g t"; cases h) (auto simp: same_outcome_def)
    with Inl fg show ?thesis by simp
  next
    case (Inr s')
    with fg obtain t' where t': "g t = Inr t'" by (cases "g t") (auto simp: same_outcome_def)
    with Inr fg have "same_io s' t'" by (simp add: same_outcome_def)
    with assms(2) have "same_outcome (block fs s') (block gs t')" by (simp add: agree_def)
    with Inr t' show ?thesis by simp
  qed
qed

lemmas agree_intros = agree_block_Cons agree_block_Nil agree_log agree_exec agree_wait
  agree_set_isLoaded

lemma agree_loadIO: "agree (loadIO env v) (loadIO env v')"
  unfolding loadIO_def by (intro agree_intros)

lemma agree_loadSio2man: "agree (loadSio2man env v) (loadSio2man env v')"
  unfolding loadSio2man_def by (intro agree_intros)

lemma agree_loadPadman: "agree (loadPadman env v) (loadPadman env v')"
  unfolding loadPadman_def by (intro agree_intros)

lemma agree_loadLibsd: "agree (loadLibsd env v) (loadLibsd env v')"
  unfolding loadLibsd_def by (intro agree_intros)

lemma agree_loadAudsrv: "agree (loadAudsrv env v) (loadAudsrv env v')"
  unfolding loadAudsrv_def by (intro agree_intros)

lemma agree_loadUsbModules: "agree (loadUsbModules cfg env v) (loadUsbModules cfg env v')"
  unfolding loadUsbModules_def by (cases "USE_USBDMINI cfg"; simp) (intro agree_intros)+

lemma agree_loadHddModules: "agree (loadHddModules cfg env v) (loadHddModules cfg env v')"
  unfolding loadHddModules_def by (cases "ATAD cfg"; simp) (intro agree_intros)+

lemma loadAll_same_io:
  assumes "same_io s t"
  shows "same_outcome (loadAll cfg env withUsb withHdd l s) (loadAll cfg env withUsb withHdd l' t)"
proof (cases "isLoaded s")
  case True
  with assms have "isLoaded t" by (simp add: same_io_def)
  with True assms show ?thesis
    by (simp add: loadAll_loaded same_outcome_def same_io_log)
next
  case False
  with assms have t: "\<not> isLoaded t" by (simp add: same_io_def)
  have "agree
      (block [loadIO env (\<not> l), loadSio2man env (\<not> l), loadPadman env (\<not> l), loadLibsd env (\<not> l),
        if_then withUsb (loadUsbModules cfg env (\<not> l)),
        if_then withHdd (loadHddModules cfg env (\<not> l)), loadAudsrv env True, set_isLoaded])
      (block [loadIO env (\<not> l'), loadSio2man env (\<not> l'), loadPadman env (\<not> l'), loadLibsd env (\<not> l'),
        if_then withUsb (loadUsbModules cfg env (\<not> l')),
        if_then withHdd (loadHddModules cfg env (\<not> l')), loadAudsrv env True, set_isLoaded])"
    by (intro agree_block_Cons agree_block_Nil agree_if_then agree_loadIO agree_loadSio2man
        agree_loadPadman agree_loadLibsd agree_loadUsbModules agree_loadHddModules
        agree_loadAudsrv agree_set_isLoaded)
  with assms False t show ?thesis
    by (simp add: loadAll_def agree_def del: block.simps)
qed

lemma logs_replicate_Spin [simp]: "logs (replicate n (Spin k)) = []"
  by (induction n) simp_all

lemma logs_probe_events [simp]: "logs (probe_events rs) = []"
  by (induction rs) (simp_all add: probe_events_def)

lemma silent_block_Nil: "silent (block [])"
  by (simp add: silent_def)

lemma silent_block_Cons:
  assumes "silent f" and "silent (block fs)"
  shows "silent (block (f # fs))"
  unfolding silent_def
proof
  fix s
  from assms(1) have f: "logs (trace (final (f s))) = logs (trace s)" by (simp add: silent_def)
  show "logs (trace (final (block (f # fs) s))) = logs (trace s)"
  proof (cases "f s")
    case (Inl h)
    with f show ?thesis by simp
  next
    case (Inr s')
    from assms(2) have "logs (trace (final (block fs s'))) = logs (trace s')"
      by (simp add: silent_def)
    with Inr f show ?thesis by simp
  qed
qed

lemma silent_no_log: "silent (if_then False f)"
  by (simp add: silent_def if_then_def)

lemma silent_if_then: "silent f \<Longrightarrow> silent (if_then c f)"
  by (simp add: silent_def if_then_def)

lemma silent_exec: "silent (exec_module env m msg)"
  by (simp add: silent_def exec_module_def TYRA_ASSERT_def Let_def emit_def)

lemma silent_wait: "silent (waitUntilUsbDeviceIsReady env)"
  unfolding silent_def
proof
  fix s
  obtain n rs where "waitUntilUsbDeviceIsReady env s =
      Inr (s\<lparr>trace := trace s @ replicate n (Spin 0x01000000) @ probe_events rs\<rparr>)"
    using waitUntilUsbDeviceIsReady_trace by blast
  then show "logs (trace (final (waitUntilUsbDeviceIsReady env s))) = logs (trace s)"
    by simp
qed

lemmas silent_intros = silent_block_Cons silent_block_Nil silent_no_log silent_exec silent_wait

lemma silent_loadIO: "silent (loadIO env False)"
  unfolding loadIO_def by (intro silent_intros)

lemma silent_loadSio2man: "silent (loadSio2man env False)"
  unfolding loadSio2man_def by (intro silent_intros)

lemma silent_loadPadman: "silent (loadPadman env False)"
  unfolding loadPadman_def by (intro silent_intros)

lemma silent_loadLibsd: "silent (loadLibsd env False)"
  unfolding loadLibsd_def by (intro silent_intros)

lemma silent_loadUsbModules: "silent (loadUsbModules cfg env False)"
  unfolding loadUsbModules_def by (cases "USE_USBDMINI cfg"; simp) (intro silent_intros)+

lemma silent_loadHddModules: "silent (loadHddModules cfg env False)"
  unfolding loadHddModules_def by (cases "ATAD cfg"; simp) (intro silent_intros)+

text \<open>With logging to file, the only lines a first call writes are those of the audio server.\<close>

lemma loadAll_quiet_logs:
  assumes "\<not> isLoaded s"
  shows "\<exists>ls. logs (trace (final (loadAll cfg env withUsb withHdd True s))) = logs (trace s) @ ls \<and>
           prefix ls [''IRX: Loading audsrv...'', ''IRX: Audsrv loaded!''] \<and>
           (returned (loadAll cfg env withUsb withHdd True s) \<longrightarrow>
              ls = [''IRX: Loading audsrv...'', ''IRX: Audsrv loaded!'']) \<and>
           (audsrv_irx \<in> fst ` set (execs (trace (final (loadAll cfg env withUsb withHdd True s)))) \<or>
            ls = [])"
proof -
  let ?pre = "[loadIO env False, loadSio2man env False, loadPadman env False, loadLibsd env False,
        if_then withUsb (loadUsbModules cfg env False),
        if_then withHdd (loadHddModules cfg env False)]"
  have quiet: "silent (block ?pre)"
    by (intro silent_block_Cons silent_block_Nil silent_if_then silent_loadIO silent_loadSio2man
        silent_loadPadman silent_loadLibsd silent_loadUsbModules silent_loadHddModules)
  then have pre: "logs (trace (final (block ?pre s))) = logs (trace s)"
    by (simp add: silent_def)
  from assms have all: "loadAll cfg env withUsb withHdd True s =
      (case block ?pre s of Inl h \<Rightarrow> Inl h
       | Inr s' \<Rightarrow> block [loadAudsrv env True, set_isLoaded] s')"
    using block_append [of ?pre "[loadAudsrv env True, set_isLoaded]" s]
    by (simp add: loadAll_def del: block.simps)
  show ?thesis
  proof (cases "block ?pre s")
    case (Inl h)
    with all pre have "logs (trace (final (loadAll cfg env withUsb withHdd True s))) =
        logs (trace s) @ []" "\<not> returned (loadAll cfg env withUsb withHdd True s)"
      by simp_all
    then show ?thesis by (intro exI [of _ "[]"]) simp
  next
    case (Inr s')
    let ?q = "fst (SifExecModuleBuffer env (io_history (trace s')) audsrv_irx)"
    let ?r = "ret_after env (io_history (trace s')) audsrv_irx"
    from Inr pre have s': "logs (trace s') = logs (trace s)" by simp
    from Inr all have out: "loadAll cfg env withUsb withHdd True s =
        block [loadAudsrv env True, set_isLoaded] s'"
      by simp
    show ?thesis
    proof (cases "0 \<le> sint ?r")
      case True
      then have "block [loadAudsrv env True, set_isLoaded] s' =
          Inr (s'\<lparr>trace := trace s' @ [Log ''IRX: Loading audsrv...'', Exec audsrv_irx ?q ?r,
                 Log ''IRX: Audsrv loaded!''], isLoaded := True\<rparr>)"
        by (simp add: loadAudsrv_def if_then_def TYRA_LOG_def exec_module_def TYRA_ASSERT_def
            set_isLoaded_def emit_def io_history_def Let_def)
      with out s' show ?thesis
        by (intro exI [of _ "[''IRX: Loading audsrv...'', ''IRX: Audsrv loaded!'']"]) simp
    next
      case False
      then have "block [loadAudsrv env True, set_isLoaded] s' =
          Inl (AssertFailed ''Failed to load module: audsrv_irx'',
               s'\<lparr>trace := trace s' @ [Log ''IRX: Loading audsrv...'', Exec audsrv_irx ?q ?r]\<rparr>)"
        by (simp add: loadAudsrv_def if_then_def TYRA_LOG_def exec_module_def TYRA_ASSERT_def
            set_isLoaded_def emit_def io_history_def Let_def)
      with out s' show ?thesis
        by (intro exI [of _ "[''IRX: Loading audsrv...'']"]) simp
    qed
  qed
qed

lemma returned_verdict: "returned a \<longleftrightarrow> verdict a = None"
  by (cases a) auto

subsection \<open>The wait loops of the constructor\<close>

lemma io_history_emit_IopReset [simp]:
  "io_history (trace (emit (IopReset a r) s)) = io_history (trace s) @ [IopReset a r]"
  by (simp add: emit_def io_history_def)

lemma io_history_emit_IopSync [simp]:
  "io_history (trace (emit (IopSync r) s)) = io_history (trace s) @ [IopSync r]"
  by (simp add: emit_def io_history_def)





lemma iop_reset_loop_hangs:
  assumes "\<forall>n. SifIopReset env (io_history (trace s) @ replicate n (IopReset arg 0)) = 0"
  shows "iop_reset_loop arg env s = None"
proof (rule ccontr)
  assume "iop_reset_loop arg env s \<noteq> None"
  then obtain s' where run: "iop_reset_loop arg env s = Some s'" by blast
  have "\<exists>n. SifIopReset env (io_history (trace s) @ replicate n (IopReset arg 0)) \<noteq> 0"
  proof (rule iop_reset_loop.raw_induct [where P = "\<lambda>arg env s s'.
      \<exists>n. SifIopReset env (io_history (trace s) @ replicate n (IopReset arg 0)) \<noteq> 0", OF _ run])
    fix loop arg env s s'
    assume IH: "\<And>arg env s s'. loop arg env s = Some s' \<Longrightarrow>
        \<exists>n. SifIopReset env (io_history (trace s) @ replicate n (IopReset arg 0)) \<noteq> 0"
      and step: "(if SifIopReset env (io_history (trace s)) = 0
          then loop arg env (emit (IopReset arg 0) s)
          else Some (emit (IopReset arg (SifIopReset env (io_history (trace s)))) s)) = Some s'"
    show "\<exists>n. SifIopReset env (io_history (trace s) @ replicate n (IopReset arg 0)) \<noteq> 0"
    proof (cases "SifIopReset env (io_history (trace s)) = 0")
      case True
      with step have "loop arg env (emit (IopReset arg 0) s) = Some s'" by simp
      from IH [OF this] obtain n where
        "SifIopReset env (io_history (trace s) @ replicate (Suc n) (IopReset arg 0)) \<noteq> 0"
        by auto
      then show ?thesis by blast
    next
      case False
      then have "SifIopReset env (io_history (trace s) @ replicate 0 (IopReset arg 0)) \<noteq> 0"
        by simp
      then show ?thesis by blast
    qed
  qed
  with assms show False by simp
qed



lemma projections_replicate_IopReset [simp]:
  "resets (replicate n (IopReset a r)) = replicate n r"
  by (induction n) simp_all

lemma projections_replicate_IopSync [simp]:
  "syncs (replicate n (IopSync r)) = replicate n r"
  by (induction n) simp_all

subsection \<open>The lines of the audio server\<close>

lemma loads_required_and_batches:
  "loads env
     (required_modules @ (if withUsb then usb_batch cfg else []) @
      (if withHdd then hdd_batch cfg else [])) withUsb
     (block
       [loadIO env v1, loadSio2man env v2, loadPadman env v3, loadLibsd env v4,
        if_then withUsb (loadUsbModules cfg env v5),
        if_then withHdd (loadHddModules cfg env v6)])"
  unfolding required_modules_def
  by (rule loads_eq)
     ((rule loads_block_Cons loads_block_Nil loads_loadIO loads_loadSio2man loads_loadPadman
        loads_loadLibsd loads_if_then loads_loadUsbModules loads_loadHddModules)+,
      simp_all)

text \<open>
  The log lines of a first call: those of the steps before the audio server, none when
  logging to file, and then those of the audio server, which do not depend on the
  argument.
\<close>

lemma loadAll_audsrv_logs:
  assumes "\<not> isLoaded s"
  shows "\<exists>pre ls. logs (new_events s (final (loadAll cfg env withUsb withHdd l s))) = pre @ ls \<and>
           (l \<longrightarrow> pre = []) \<and>
           prefix ls [''IRX: Loading audsrv...'', ''IRX: Audsrv loaded!''] \<and>
           (returned (loadAll cfg env withUsb withHdd l s) \<longrightarrow>
              ls = [''IRX: Loading audsrv...'', ''IRX: Audsrv loaded!'']) \<and>
           (audsrv_irx \<in> fst ` set (loads_issued s (loadAll cfg env withUsb withHdd l s)) \<longrightarrow>
              ls \<noteq> [])"
proof -
  let ?out = "loadAll cfg env withUsb withHdd l s"
  let ?ms = "required_modules @ (if withUsb then usb_batch cfg else []) @
      (if withHdd then hdd_batch cfg else [])"
  let ?pre = "[loadIO env (\<not> l), loadSio2man env (\<not> l), loadPadman env (\<not> l),
        loadLibsd env (\<not> l), if_then withUsb (loadUsbModules cfg env (\<not> l)),
        if_then withHdd (loadHddModules cfg env (\<not> l))]"
  have "run_of env ?ms withUsb s (block ?pre s)"
    using loads_required_and_batches [of env withUsb cfg withHdd "\<not> l" "\<not> l" "\<not> l" "\<not> l" "\<not> l" "\<not> l"]
    by (simp add: loads_def)
  then obtain d1 where d1: "trace (final (block ?pre s)) = trace s @ d1"
    and ff: "fail_fast ?ms (execs d1) (returned (block ?pre s))"
    by (auto simp: run_of_def summary_def)
  have "audsrv_irx \<notin> set ?ms"
    by (simp add: required_modules_def usb_batch_def hdd_batch_def)
  moreover from ff have "set (map fst (execs d1)) \<subseteq> set ?ms"
    by (intro set_mono_prefix fail_fast_prefix)
  ultimately have no_aud: "audsrv_irx \<notin> fst ` set (execs d1)" by auto
  have quiet: "l \<longrightarrow> logs d1 = []"
  proof
    assume l
    then have "silent (block ?pre)"
      by simp (intro silent_block_Cons silent_block_Nil silent_if_then silent_loadIO
          silent_loadSio2man silent_loadPadman silent_loadLibsd silent_loadUsbModules
          silent_loadHddModules)
    then have "logs (trace (final (block ?pre s))) = logs (trace s)"
      by (simp add: silent_def)
    with d1 show "logs d1 = []" by simp
  qed
  from assms have all: "?out =
      (case block ?pre s of Inl h \<Rightarrow> Inl h
       | Inr s' \<Rightarrow> block [loadAudsrv env True, set_isLoaded] s')"
    using block_append [of ?pre "[loadAudsrv env True, set_isLoaded]" s]
    by (simp add: loadAll_def del: block.simps)
  show ?thesis
  proof (cases "block ?pre s")
    case (Inl h)
    with all have out: "?out = block ?pre s" by simp
    from Inl out d1 have "new_events s (final ?out) = d1" "\<not> returned ?out"
      by simp_all
    with no_aud quiet have "logs (new_events s (final ?out)) = logs d1 @ []"
      "l \<longrightarrow> logs d1 = []" "\<not> returned ?out"
      "audsrv_irx \<notin> fst ` set (loads_issued s ?out)"
      by (simp_all add: loads_issued_def)
    then show ?thesis
      by (intro exI [of _ "logs d1"] exI [of _ "[]"]) simp
  next
    case (Inr s')
    let ?q = "fst (SifExecModuleBuffer env (io_history (trace s')) audsrv_irx)"
    let ?r = "ret_after env (io_history (trace s')) audsrv_irx"
    from Inr d1 have s': "trace s' = trace s @ d1" by simp
    from Inr all have out: "?out = block [loadAudsrv env True, set_isLoaded] s'"
      by simp
    show ?thesis
    proof (cases "0 \<le> sint ?r")
      case True
      then have "block [loadAudsrv env True, set_isLoaded] s' =
          Inr (s'\<lparr>trace := trace s' @ [Log ''IRX: Loading audsrv...'', Exec audsrv_irx ?q ?r,
                 Log ''IRX: Audsrv loaded!''], isLoaded := True\<rparr>)"
        by (simp add: loadAudsrv_def if_then_def TYRA_LOG_def exec_module_def TYRA_ASSERT_def
            set_isLoaded_def emit_def io_history_def Let_def)
      with out s' have "new_events s (final ?out) = d1 @ [Log ''IRX: Loading audsrv...'',
          Exec audsrv_irx ?q ?r, Log ''IRX: Audsrv loaded!'']" "returned ?out"
        by simp_all
      with quiet show ?thesis
        by (intro exI [of _ "logs d1"]
            exI [of _ "[''IRX: Loading audsrv...'', ''IRX: Audsrv loaded!'']"]) simp
    next
      case False
      then have "block [loadAudsrv env True, set_isLoaded] s' =
          Inl (AssertFailed ''Failed to load module: audsrv_irx'',
               s'\<lparr>trace := trace s' @ [Log ''IRX: Loading audsrv...'', Exec audsrv_irx ?q ?r]\<rparr>)"
        by (simp add: loadAudsrv_def if_then_def TYRA_LOG_def exec_module_def TYRA_ASSERT_def
            set_isLoaded_def emit_def io_history_def Let_def)
      with out s' have "new_events s (final ?out) = d1 @ [Log ''IRX: Loading audsrv...'',
          Exec audsrv_irx ?q ?r]" "\<not> returned ?out"
        by simp_all
      with quiet show ?thesis
        by (intro exI [of _ "logs d1"] exI [of _ "[''IRX: Loading audsrv...'']"]) simp
    qed
  qed
qed

subsection \<open>The toggles in closed form\<close>

lemma io_history_Patch [simp]: "io_history (Patch p r # es) = Patch p r # io_history es"
  by (simp add: io_history_def)

text \<open>The toggles \<open>applyRpcPatches\<close> invokes, from the answers of the platform.\<close>

lemma applyRpcPatches_exact:
  fixes env s
  defines "r1 \<equiv> sbv_patch_enable_lmb env (io_history (trace s))"
  defines "r2 \<equiv> sbv_patch_disable_prefix_check env (io_history (trace s) @ [Patch Enable_lmb r1])"
  defines "r3 \<equiv> sbv_patch_fileio env
      (io_history (trace s) @ [Patch Enable_lmb r1, Patch Disable_prefix_check r2])"
  shows "patches (new_events s (final (discard (applyRpcPatches env s)))) =
           (if sint r1 < 0 then [(Enable_lmb, r1)]
            else if sint r2 < 0 then [(Enable_lmb, r1), (Disable_prefix_check, r2)]
            else [(Enable_lmb, r1), (Disable_prefix_check, r2), (Fileio, r3)])"
    and "returned (discard (applyRpcPatches env s)) \<longleftrightarrow>
           0 \<le> sint r1 \<and> 0 \<le> sint r2 \<and> 0 \<le> sint r3"
proof -
  have nil: "io_history [] = []" by (simp add: io_history_def)
  show "patches (new_events s (final (discard (applyRpcPatches env s)))) =
           (if sint r1 < 0 then [(Enable_lmb, r1)]
            else if sint r2 < 0 then [(Enable_lmb, r1), (Disable_prefix_check, r2)]
            else [(Enable_lmb, r1), (Disable_prefix_check, r2), (Fileio, r3)])"
    by (simp add: applyRpcPatches_def Let_def TYRA_ASSERT_def discard_def emit_def new_events_def
        r1_def r2_def r3_def nil not_less)
  show "returned (discard (applyRpcPatches env s)) \<longleftrightarrow>
           0 \<le> sint r1 \<and> 0 \<le> sint r2 \<and> 0 \<le> sint r3"
    by (simp add: applyRpcPatches_def Let_def TYRA_ASSERT_def discard_def emit_def
        r1_def r2_def r3_def nil)
qed

subsection \<open>What the assertions after a load catch\<close>

text \<open>
  The assertion after a load tests \<open>ret\<close>. On a first call of \<open>loadAll\<close>, if the
  load issued at position \<open>i\<close> leaves a negative value in \<open>ret\<close>, then the call halts
  and does not return, \<open>isLoaded\<close> stays unset, the loads issued are exactly the first
  \<open>i + 1\<close> modules of the fixed sequence, and no module positioned after that one is
  among them. Nothing tests the value the call returned.
\<close>

lemma loadAll_negative_ret_halts:
  fixes cfg env withUsb withHdd isLoggingToFile s i
  defines "out \<equiv> loadAll cfg env withUsb withHdd isLoggingToFile s"
  assumes "\<not> isLoaded s"
    and "i < length (loads_issued s out)"
    and "sint (snd (loads_issued s out ! i)) < 0"
  shows "\<not> returned out \<and> \<not> isLoaded (final out) \<and>
         map fst (loads_issued s out) = take (Suc i) (module_sequence cfg withUsb withHdd) \<and>
         (\<forall>m\<in>set (drop (Suc i) (module_sequence cfg withUsb withHdd)).
            m \<notin> fst ` set (loads_issued s out))"
proof -
  note run = loadAll_first_call_issued [OF assms(2), where cfg = cfg and env = env and
      withUsb = withUsb and withHdd = withHdd and isLoggingToFile = isLoggingToFile,
      folded out_def]
  from run(1) assms(3,4) have last: "Suc i = length (loads_issued s out)" and halt: "\<not> returned out"
    using fail_fast_negative_last by blast+
  from run(1) have "prefix (map fst (loads_issued s out)) (module_sequence cfg withUsb withHdd)"
    by (rule fail_fast_prefix)
  then have "map fst (loads_issued s out) =
      take (length (map fst (loads_issued s out))) (module_sequence cfg withUsb withHdd)"
    by (metis append_eq_conv_conj prefix_def)
  with last have issued: "map fst (loads_issued s out) =
      take (Suc i) (module_sequence cfg withUsb withHdd)"
    by simp
  have "set (take (Suc i) (module_sequence cfg withUsb withHdd)) \<inter>
        set (drop (Suc i) (module_sequence cfg withUsb withHdd)) = {}"
    using distinct_module_sequence by (rule set_take_disj_set_drop_if_distinct) simp
  with issued have "\<forall>m\<in>set (drop (Suc i) (module_sequence cfg withUsb withHdd)).
            m \<notin> fst ` set (loads_issued s out)"
    by (metis disjoint_iff set_map)
  with halt run(2) issued show ?thesis by simp
qed

lemma loadAll_negative_ret_halts_example:
  "\<not> isLoaded initial_state \<and>
   3 < length (loads_issued initial_state
         (loadAll standard_build (stub (Some padman_irx) None) True True False initial_state)) \<and>
   sint (snd (loads_issued initial_state
         (loadAll standard_build (stub (Some padman_irx) None) True True False initial_state) ! 3)) < 0 \<and>
   \<not> returned (loadAll standard_build (stub (Some padman_irx) None) True True False initial_state) \<and>
   \<not> isLoaded (final
         (loadAll standard_build (stub (Some padman_irx) None) True True False initial_state)) \<and>
   map fst (loads_issued initial_state
         (loadAll standard_build (stub (Some padman_irx) None) True True False initial_state)) =
     [iomanX_irx, fileXio_irx, sio2man_irx, padman_irx]"
proof -
  let ?out = "loadAll standard_build (stub (Some padman_irx) None) True True False initial_state"
  have flag: "\<not> isLoaded initial_state"
    by (simp add: initial_state_def)
  have issued: "loads_issued initial_state ?out =
      [(iomanX_irx, 0), (fileXio_irx, 0), (sio2man_irx, 0), (padman_irx, - 1)]"
    by code_simp
  have pos: "3 < length (loads_issued initial_state ?out)"
    and neg: "sint (snd (loads_issued initial_state ?out ! 3)) < 0"
    by (simp_all add: issued)
  from loadAll_negative_ret_halts [OF flag pos neg] flag pos neg show ?thesis
    by (simp add: module_sequence_def required_modules_def)
qed

section \<open>The claims\<close>

text \<open>
  Claim C1 (idempotency of \<open>loadAll\<close>). Once a call of \<open>loadAll\<close> has returned, the
  flag is set, and any later call, whatever its arguments, returns at once: it writes
  the notice that the modules are already loaded and does nothing else, so it issues
  no module load. The same holds after any number of further constructions and calls,
  since nothing resets the flag. In a process, which starts with the flag unset and an
  empty trace, no module image is loaded twice, whatever calls it makes.
\<close>

theorem loadAll_idempotent:
  fixes cfg env withUsb withHdd isLoggingToFile s s1 withUsb' withHdd' isLoggingToFile'
  assumes "loadAll cfg env withUsb withHdd isLoggingToFile s = Inr s1"
  shows "isLoaded s1 \<and>
         loadAll cfg env withUsb' withHdd' isLoggingToFile' s1 =
           Inr (emit (Log ''IRX modules already loaded!'') s1) \<and>
         loads_issued s1 (loadAll cfg env withUsb' withHdd' isLoggingToFile' s1) = [] \<and>
         (\<forall>cs out. run_calls cfg env cs s1 = Some out \<longrightarrow>
            isLoaded (final out) \<and> prefix (trace s1) (trace (final out)) \<and>
            loads_issued s1 out = []) \<and>
         (\<forall>cs out. run_calls cfg env cs initial_state = Some out \<longrightarrow>
            distinct (map fst (execs (trace (final out)))))"
proof -
  have 1: "isLoaded s1"
  proof (cases "isLoaded s")
    case True
    with assms show ?thesis by (auto simp: loadAll_loaded emit_def)
  next
    case False
    from loadAll_first_call [OF False, of cfg env withUsb withHdd isLoggingToFile] assms
    show ?thesis by auto
  qed
  then have 2: "loadAll cfg env withUsb' withHdd' isLoggingToFile' s1 =
           Inr (emit (Log ''IRX modules already loaded!'') s1)"
    by (rule loadAll_loaded)
  then have 3: "loads_issued s1 (loadAll cfg env withUsb' withHdd' isLoggingToFile' s1) = []"
    by (simp add: loads_issued_def emit_def new_events_def)
  have 4: "\<forall>cs out. run_calls cfg env cs s1 = Some out \<longrightarrow>
            isLoaded (final out) \<and> prefix (trace s1) (trace (final out)) \<and>
            loads_issued s1 out = []"
  proof (intro allI impI)
    fix cs out
    assume "run_calls cfg env cs s1 = Some out"
    from run_calls_loaded [OF 1 this] obtain d where "isLoaded (final out)"
      "trace (final out) = trace s1 @ d" "execs d = []"
      by blast
    then show "isLoaded (final out) \<and> prefix (trace s1) (trace (final out)) \<and>
            loads_issued s1 out = []"
      by (simp add: loads_issued_def)
  qed
  have 5: "\<forall>cs out. run_calls cfg env cs initial_state = Some out \<longrightarrow>
            distinct (map fst (execs (trace (final out))))"
  proof (intro allI impI)
    fix cs out
    assume run: "run_calls cfg env cs initial_state = Some out"
    have "isLoaded initial_state \<or> execs (trace initial_state) = []"
      and "distinct (map fst (execs (trace initial_state)))"
      by (simp_all add: initial_state_def)
    then show "distinct (map fst (execs (trace (final out))))"
      using run by (rule run_calls_once)
  qed
  show ?thesis by (intro conjI 1 2 3 4 5)
qed

theorem loadAll_idempotent_witness:
  "loadAll standard_build (stub None None) False False True initial_state =
     Inr \<lparr>isLoaded = True,
       trace = [Exec iomanX_irx 0 0, Exec fileXio_irx 0 0, Exec sio2man_irx 0 0, Exec padman_irx 0 0,
                Exec libsd_irx 0 0, Log ''IRX: Loading audsrv...'', Exec audsrv_irx 0 0,
                Log ''IRX: Audsrv loaded!'']\<rparr> \<and>
   loadAll standard_build (stub None None) True True False
     \<lparr>isLoaded = True,
       trace = [Exec iomanX_irx 0 0, Exec fileXio_irx 0 0, Exec sio2man_irx 0 0, Exec padman_irx 0 0,
                Exec libsd_irx 0 0, Log ''IRX: Loading audsrv...'', Exec audsrv_irx 0 0,
                Log ''IRX: Audsrv loaded!'']\<rparr> =
     Inr \<lparr>isLoaded = True,
       trace = [Exec iomanX_irx 0 0, Exec fileXio_irx 0 0, Exec sio2man_irx 0 0, Exec padman_irx 0 0,
                Exec libsd_irx 0 0, Log ''IRX: Loading audsrv...'', Exec audsrv_irx 0 0,
                Log ''IRX: Audsrv loaded!'', Log ''IRX modules already loaded!'']\<rparr>"
proof -
  let ?s1 = "\<lparr>isLoaded = True,
       trace = [Exec iomanX_irx 0 0, Exec fileXio_irx 0 0, Exec sio2man_irx 0 0, Exec padman_irx 0 0,
                Exec libsd_irx 0 0, Log ''IRX: Loading audsrv...'', Exec audsrv_irx 0 0,
                Log ''IRX: Audsrv loaded!'']\<rparr>"
  have first: "loadAll standard_build (stub None None) False False True initial_state = Inr ?s1"
    by code_simp
  note inst = loadAll_idempotent [OF first, where withUsb' = True and withHdd' = True and
      isLoggingToFile' = False]
  note again = inst [THEN conjunct2, THEN conjunct1]
  from again have "loadAll standard_build (stub None None) True True False ?s1 =
      Inr (emit (Log ''IRX modules already loaded!'') ?s1)" .
  with first show ?thesis by (simp add: emit_def)
qed

text \<open>
  Claim C2 (fatal propagation of a module-load failure). The claim fails on the code:
  each loader drops the return value of \<open>SifExecModuleBuffer\<close> and asserts on its
  local \<open>ret\<close>, which it never initialises. Here the load of sio2man returns -200 and
  stores nothing through \<open>&ret\<close>, and the uninitialised \<open>ret\<close> reads as 0: the
  assertion passes, padman, libsd and audsrv are loaded after the failed module, the
  call returns and \<open>isLoaded\<close> is set.
\<close>

theorem loadAll_failed_load_not_fatal:
  "exec_results (new_events initial_state (final
      (loadAll standard_build
         (stub None None\<lparr>SifExecModuleBuffer :=
            \<lambda>h m. if m = sio2man_irx then (- 200, None) else (0, Some 0)\<rparr>)
         False False True initial_state))) =
     [(iomanX_irx, 0), (fileXio_irx, 0), (sio2man_irx, - 200), (padman_irx, 0),
      (libsd_irx, 0), (audsrv_irx, 0)] \<and>
   returned (loadAll standard_build
         (stub None None\<lparr>SifExecModuleBuffer :=
            \<lambda>h m. if m = sio2man_irx then (- 200, None) else (0, Some 0)\<rparr>)
         False False True initial_state) \<and>
   isLoaded (final (loadAll standard_build
         (stub None None\<lparr>SifExecModuleBuffer :=
            \<lambda>h m. if m = sio2man_irx then (- 200, None) else (0, Some 0)\<rparr>)
         False False True initial_state))"
  by code_simp

text \<open>
  Claim C3 (patching before loading). In a bring-up, that is a construction of an
  \<open>IrxLoader\<close> followed by \<open>loadAll\<close>, split what was issued at the first module
  load. No capability toggle is issued from there on. If the bring-up returned, or
  any module load was issued, then before the first load all three toggles had been
  invoked, in order, and had succeeded. A bring-up that returned from an unloaded
  state has then issued the whole module sequence.
\<close>

theorem patches_before_first_load:
  fixes cfg env withUsb withHdd isLoggingToFile s out
  assumes "bring_up cfg env withUsb withHdd isLoggingToFile s = Some out"
  defines "pre \<equiv> takeWhile (\<lambda>e. \<not> is_exec e) (new_events s (final out))"
    and "post \<equiv> dropWhile (\<lambda>e. \<not> is_exec e) (new_events s (final out))"
  shows "new_events s (final out) = pre @ post \<and> execs pre = [] \<and> patches post = [] \<and>
         (returned out \<or> post \<noteq> [] \<longrightarrow>
            map fst (patches pre) = [Enable_lmb, Disable_prefix_check, Fileio] \<and>
            (\<forall>x\<in>set (patches pre). 0 \<le> sint (snd x))) \<and>
         (returned out \<and> \<not> isLoaded s \<longrightarrow>
            map fst (execs post) = module_sequence cfg withUsb withHdd)"
proof -
  from assms(1) obtain c where c: "IrxLoader cfg env s = Some c"
    by (auto simp: bring_up_def split: option.splits)
  from IrxLoader_events [OF c] obtain dc where dc: "trace (final c) = trace s @ dc"
    and ex: "execs dc = []"
    and ff: "fail_fast patch_sequence (patches dc) (returned c)"
    and flag: "isLoaded (final c) = isLoaded s"
    by blast
  have 1: "new_events s (final out) = pre @ post" by (simp add: pre_def post_def)
  have 2: "execs pre = []"
    unfolding pre_def execs_empty_iff by (auto dest: set_takeWhileD)
  show ?thesis
  proof (cases c)
    case (Inl h)
    with assms(1) c have out: "out = c" by (simp add: bring_up_def)
    with dc have d: "new_events s (final out) = dc" by simp
    from ex have "pre = dc" "post = []"
      unfolding pre_def post_def d by (simp_all add: execs_empty_iff)
    with Inl out 1 2 show ?thesis by simp
  next
    case (Inr s1)
    with assms(1) c have out: "out = loadAll cfg env withUsb withHdd isLoggingToFile s1"
      by (simp add: bring_up_def)
    from Inr ff have "fail_fast patch_sequence (patches dc) True" by simp
    then have ok: "map fst (patches dc) = [Enable_lmb, Disable_prefix_check, Fileio]"
      "\<forall>x\<in>set (patches dc). 0 \<le> sint (snd x)"
      by (auto dest: fail_fast_True simp: patch_sequence_def)
    from loadAll_events [of cfg env withUsb withHdd isLoggingToFile s1] out
    obtain dl where dl: "trace (final out) = trace s1 @ dl" and pl: "patches dl = []"
      and first: "\<not> isLoaded s1 \<longrightarrow>
           fail_fast (module_sequence cfg withUsb withHdd) (execs dl) (returned out)"
      by auto
    from Inr dc dl have d: "new_events s (final out) = dc @ dl" by simp
    from ex have pre: "pre = dc @ takeWhile (\<lambda>e. \<not> is_exec e) dl"
      and post: "post = dropWhile (\<lambda>e. \<not> is_exec e) dl"
      unfolding pre_def post_def d by (simp_all add: split_at_first_exec)
    from pl post have 3: "patches post = []" by (simp add: patches_dropWhile)
    from pl pre have "patches pre = patches dc" by (simp add: patches_takeWhile)
    with ok have 4: "map fst (patches pre) = [Enable_lmb, Disable_prefix_check, Fileio] \<and>
            (\<forall>x\<in>set (patches pre). 0 \<le> sint (snd x))"
      by simp
    have 5: "returned out \<and> \<not> isLoaded s \<longrightarrow>
            map fst (execs post) = module_sequence cfg withUsb withHdd"
    proof
      assume a: "returned out \<and> \<not> isLoaded s"
      with Inr flag first have "fail_fast (module_sequence cfg withUsb withHdd) (execs dl) True"
        by simp
      then show "map fst (execs post) = module_sequence cfg withUsb withHdd"
        unfolding post by (auto dest: fail_fast_True)
    qed
    from 1 2 3 4 5 show ?thesis by simp
  qed
qed

theorem patches_before_first_load_witness:
  "bring_up full_build (stub None None) False False True initial_state =
     Some (Inr \<lparr>isLoaded = True,
       trace = [InitRpc, IopReset (Some []) 1, IopSync 1, InitRpc,
                Patch Enable_lmb 0, Patch Disable_prefix_check 0, Patch Fileio 0,
                Exec iomanX_irx 0 0, Exec fileXio_irx 0 0, Exec sio2man_irx 0 0, Exec padman_irx 0 0,
                Exec libsd_irx 0 0, Log ''IRX: Loading audsrv...'', Exec audsrv_irx 0 0,
                Log ''IRX: Audsrv loaded!'']\<rparr>) \<and>
   map fst (patches (takeWhile (\<lambda>e. \<not> is_exec e) (new_events initial_state
     \<lparr>isLoaded = True,
       trace = [InitRpc, IopReset (Some []) 1, IopSync 1, InitRpc,
                Patch Enable_lmb 0, Patch Disable_prefix_check 0, Patch Fileio 0,
                Exec iomanX_irx 0 0, Exec fileXio_irx 0 0, Exec sio2man_irx 0 0, Exec padman_irx 0 0,
                Exec libsd_irx 0 0, Log ''IRX: Loading audsrv...'', Exec audsrv_irx 0 0,
                Log ''IRX: Audsrv loaded!'']\<rparr>))) =
     [Enable_lmb, Disable_prefix_check, Fileio] \<and>
   patches (dropWhile (\<lambda>e. \<not> is_exec e) (new_events initial_state
     \<lparr>isLoaded = True,
       trace = [InitRpc, IopReset (Some []) 1, IopSync 1, InitRpc,
                Patch Enable_lmb 0, Patch Disable_prefix_check 0, Patch Fileio 0,
                Exec iomanX_irx 0 0, Exec fileXio_irx 0 0, Exec sio2man_irx 0 0, Exec padman_irx 0 0,
                Exec libsd_irx 0 0, Log ''IRX: Loading audsrv...'', Exec audsrv_irx 0 0,
                Log ''IRX: Audsrv loaded!'']\<rparr>)) = []"
proof -
  let ?s1 = "\<lparr>isLoaded = False,
       trace = [InitRpc, IopReset (Some []) 1, IopSync 1, InitRpc,
                Patch Enable_lmb 0, Patch Disable_prefix_check 0, Patch Fileio 0]\<rparr>"
  let ?s2 = "\<lparr>isLoaded = True,
       trace = [InitRpc, IopReset (Some []) 1, IopSync 1, InitRpc,
                Patch Enable_lmb 0, Patch Disable_prefix_check 0, Patch Fileio 0,
                Exec iomanX_irx 0 0, Exec fileXio_irx 0 0, Exec sio2man_irx 0 0, Exec padman_irx 0 0,
                Exec libsd_irx 0 0, Log ''IRX: Loading audsrv...'', Exec audsrv_irx 0 0,
                Log ''IRX: Audsrv loaded!'']\<rparr>"
  have ctor: "IrxLoader full_build (stub None None) initial_state = Some (Inr ?s1)"
    by (simp add: IrxLoader_def full_build_def stub_def initial_state_def SifInitRpc_def
        emit_def iop_reset_loop_exit iop_sync_loop_exit io_history_def applyRpcPatches_def
        TYRA_ASSERT_def discard_def Let_def)
  have load: "loadAll full_build (stub None None) False False True ?s1 = Inr ?s2"
    by code_simp
  from ctor load have run: "bring_up full_build (stub None None) False False True initial_state =
      Some (Inr ?s2)"
    by (simp add: bring_up_def)
  note inst = patches_before_first_load [OF run]
  note toggles = inst [THEN conjunct2, THEN conjunct2, THEN conjunct2, THEN conjunct1]
  note none = inst [THEN conjunct2, THEN conjunct2, THEN conjunct1]
  from toggles have "map fst (patches (takeWhile (\<lambda>e. \<not> is_exec e)
      (new_events initial_state ?s2))) = [Enable_lmb, Disable_prefix_check, Fileio]"
    by simp
  moreover from none have "patches (dropWhile (\<lambda>e. \<not> is_exec e)
      (new_events initial_state ?s2)) = []"
    by simp
  ultimately show ?thesis using run by simp
qed





text \<open>
  Claim C6 (batch dependency ordering). Whatever \<open>loadUsbModules\<close> issues is an initial
  part of: USB driver, USB mass-storage bridge, block-device manager, FAT filesystem
  (the driver and the bridge in the variant of the build), so the block-device manager
  is loaded only after the driver and the bridge, and the FAT filesystem after it and
  last. Whatever \<open>loadHddModules\<close> issues is an initial part of: HDD driver, filesystem,
  dev9 bridge, and the ATA driver if configured, so the filesystem is loaded only after
  the HDD driver. The same order holds among the loads of a first call of \<open>loadAll\<close>.
\<close>

theorem batch_dependency_order:
  fixes cfg env verbose s withUsb withHdd isLoggingToFile
  defines "usb \<equiv> map fst (loads_issued s (loadUsbModules cfg env verbose s))"
    and "hdd \<equiv> map fst (loads_issued s (loadHddModules cfg env verbose s))"
    and "every \<equiv> map fst (loads_issued s (loadAll cfg env withUsb withHdd isLoggingToFile s))"
    and "usbd \<equiv> if USE_USBDMINI cfg then usbd_mini_irx else usbd_irx"
    and "usbmass \<equiv> if USE_USBDMINI cfg then usbmass_bd_mini_irx else usbmass_bd_irx"
  shows "prefix usb [usbd, usbmass, bdm_irx, bdmfs_fatfs_irx] \<and>
         loaded_before usbd bdm_irx usb \<and>
         loaded_before usbmass bdm_irx usb \<and>
         loaded_before bdm_irx bdmfs_fatfs_irx usb \<and>
         (bdmfs_fatfs_irx \<in> set usb \<longrightarrow> last usb = bdmfs_fatfs_irx) \<and>
         (returned (loadUsbModules cfg env verbose s) \<longrightarrow>
            usb = [usbd, usbmass, bdm_irx, bdmfs_fatfs_irx]) \<and>
         prefix hdd ([ps2hdd_irx, ps2fs_irx, ps2dev9_irx] @ (if ATAD cfg then [ps2atad_irx] else [])) \<and>
         loaded_before ps2hdd_irx ps2fs_irx hdd \<and>
         (returned (loadHddModules cfg env verbose s) \<longrightarrow>
            hdd = [ps2hdd_irx, ps2fs_irx, ps2dev9_irx] @ (if ATAD cfg then [ps2atad_irx] else [])) \<and>
         (\<not> isLoaded s \<longrightarrow>
            loaded_before usbd bdm_irx every \<and> loaded_before usbmass bdm_irx every \<and>
            loaded_before bdm_irx bdmfs_fatfs_irx every \<and> loaded_before ps2hdd_irx ps2fs_irx every)"
proof -
  have usb_batch: "usb_batch cfg = [usbd, usbmass, bdm_irx, bdmfs_fatfs_irx]"
    by (simp add: usb_batch_def usbd_def usbmass_def)
  have "run_of env (usb_batch cfg) True s (loadUsbModules cfg env verbose s)"
    using loads_loadUsbModules by (simp add: loads_def)
  then have usb_run: "fail_fast [usbd, usbmass, bdm_irx, bdmfs_fatfs_irx]
      (loads_issued s (loadUsbModules cfg env verbose s)) (returned (loadUsbModules cfg env verbose s))"
    unfolding usb_batch by (rule run_of_issued)
  then have u1: "prefix usb [usbd, usbmass, bdm_irx, bdmfs_fatfs_irx]"
    unfolding usb_def by (rule fail_fast_prefix)
  have full: "loaded_before usbd bdm_irx [usbd, usbmass, bdm_irx, bdmfs_fatfs_irx]"
    "loaded_before usbmass bdm_irx [usbd, usbmass, bdm_irx, bdmfs_fatfs_irx]"
    "loaded_before bdm_irx bdmfs_fatfs_irx [usbd, usbmass, bdm_irx, bdmfs_fatfs_irx]"
    by (simp_all add: loaded_before_def usbd_def usbmass_def)
  note u2 = full [THEN loaded_before_prefix [OF u1]]
  from u1 have u3: "bdmfs_fatfs_irx \<in> set usb \<longrightarrow> last usb = bdmfs_fatfs_irx"
    by (auto simp: prefix_Cons usbd_def usbmass_def split: if_splits)
  have u4: "returned (loadUsbModules cfg env verbose s) \<longrightarrow>
            usb = [usbd, usbmass, bdm_irx, bdmfs_fatfs_irx]"
    using usb_run unfolding usb_def by (auto dest: fail_fast_True)
  have "run_of env (hdd_batch cfg) False s (loadHddModules cfg env verbose s)"
    using loads_loadHddModules by (simp add: loads_def)
  then have hdd_run: "fail_fast ([ps2hdd_irx, ps2fs_irx, ps2dev9_irx] @ (if ATAD cfg then [ps2atad_irx] else []))
      (loads_issued s (loadHddModules cfg env verbose s)) (returned (loadHddModules cfg env verbose s))"
    unfolding hdd_batch_def [symmetric] by (rule run_of_issued)
  then have h1: "prefix hdd ([ps2hdd_irx, ps2fs_irx, ps2dev9_irx] @ (if ATAD cfg then [ps2atad_irx] else []))"
    unfolding hdd_def by (rule fail_fast_prefix)
  have "loaded_before ps2hdd_irx ps2fs_irx
      ([ps2hdd_irx, ps2fs_irx, ps2dev9_irx] @ (if ATAD cfg then [ps2atad_irx] else []))"
    by (simp add: loaded_before_def)
  with h1 have h2: "loaded_before ps2hdd_irx ps2fs_irx hdd"
    by (rule loaded_before_prefix)
  have h3: "returned (loadHddModules cfg env verbose s) \<longrightarrow>
            hdd = [ps2hdd_irx, ps2fs_irx, ps2dev9_irx] @ (if ATAD cfg then [ps2atad_irx] else [])"
    using hdd_run unfolding hdd_def by (auto dest: fail_fast_True)
  have a: "\<not> isLoaded s \<longrightarrow>
            loaded_before usbd bdm_irx every \<and> loaded_before usbmass bdm_irx every \<and>
            loaded_before bdm_irx bdmfs_fatfs_irx every \<and> loaded_before ps2hdd_irx ps2fs_irx every"
  proof
    assume "\<not> isLoaded s"
    then have pre: "prefix every (module_sequence cfg withUsb withHdd)"
      unfolding every_def using loadAll_first_call_issued(1) fail_fast_prefix by blast
    have "loaded_before usbd bdm_irx (module_sequence cfg withUsb withHdd)"
      "loaded_before usbmass bdm_irx (module_sequence cfg withUsb withHdd)"
      "loaded_before bdm_irx bdmfs_fatfs_irx (module_sequence cfg withUsb withHdd)"
      "loaded_before ps2hdd_irx ps2fs_irx (module_sequence cfg withUsb withHdd)"
      by (simp_all add: loaded_before_def module_sequence_def required_modules_def
          usb_batch_def hdd_batch_def usbd_def usbmass_def)
    from this [THEN loaded_before_prefix [OF pre]]
    show "loaded_before usbd bdm_irx every \<and> loaded_before usbmass bdm_irx every \<and>
            loaded_before bdm_irx bdmfs_fatfs_irx every \<and> loaded_before ps2hdd_irx ps2fs_irx every"
      by simp
  qed
  show ?thesis
    by (intro conjI u1 u2 u3 u4 h1 h2 h3 a)
qed

theorem batch_dependency_order_witness:
  "returned (loadUsbModules standard_build (stub None (Some 0)) False initial_state) \<and>
   map fst (loads_issued initial_state
      (loadUsbModules standard_build (stub None (Some 0)) False initial_state)) =
     [usbd_irx, usbmass_bd_irx, bdm_irx, bdmfs_fatfs_irx] \<and>
   loaded_before usbd_irx bdm_irx [usbd_irx, usbmass_bd_irx, bdm_irx, bdmfs_fatfs_irx] \<and>
   returned (loadHddModules standard_build (stub None (Some 0)) False initial_state) \<and>
   map fst (loads_issued initial_state
      (loadHddModules standard_build (stub None (Some 0)) False initial_state)) =
     [ps2hdd_irx, ps2fs_irx, ps2dev9_irx] \<and>
   loaded_before ps2hdd_irx ps2fs_irx [ps2hdd_irx, ps2fs_irx, ps2dev9_irx]"
proof -
  have usb: "returned (loadUsbModules standard_build (stub None (Some 0)) False initial_state)"
    by code_simp
  have hdd: "returned (loadHddModules standard_build (stub None (Some 0)) False initial_state)"
    by code_simp
  have cfg: "\<not> USE_USBDMINI standard_build" "\<not> ATAD standard_build"
    by (simp_all add: standard_build_def)
  from batch_dependency_order [of initial_state standard_build "stub None (Some 0)" False] usb hdd cfg
  show ?thesis
    by (simp add: loaded_before_def)
qed

text \<open>
  Claim C7 (readiness poll bound and early exit). The poller always returns normally,
  leaves \<open>isLoaded\<close> alone and loads nothing. It issues at most 50 probes; if every
  probe it issued reported not-ready (non-zero) it issued exactly 50; a probe that
  reported ready (zero) is the last one issued. Each status is an answer of the
  platform's \<open>stat\<close> for \<open>mass:/\<close>.
\<close>

theorem waitUntilUsbDeviceIsReady_bounded:
  fixes env s
  defines "out \<equiv> waitUntilUsbDeviceIsReady env s"
    and "probes \<equiv> stats (new_events s (final (waitUntilUsbDeviceIsReady env s)))"
  shows "returned out \<and> isLoaded (final out) = isLoaded s \<and>
         prefix (trace s) (trace (final out)) \<and> loads_issued s out = [] \<and>
         length probes \<le> 50 \<and>
         ((\<forall>r\<in>set probes. r \<noteq> 0) \<longrightarrow> length probes = 50) \<and>
         (\<forall>i<length probes. probes ! i = 0 \<longrightarrow> Suc i = length probes) \<and>
         (\<forall>r\<in>set probes. \<exists>h. r = stat env h ''mass:/'')"
proof -
  obtain n rs where out: "out =
      Inr (s\<lparr>trace := trace s @ replicate n (Spin 0x01000000) @ probe_events rs\<rparr>)"
    and rec: "poll_record env (- 1) 50 rs"
    unfolding out_def using waitUntilUsbDeviceIsReady_trace by blast
  from out have probes: "probes = rs"
    by (simp add: probes_def out_def [symmetric])
  from rec have len: "length rs \<le> 50"
    and stop: "\<forall>i<length rs. rs ! i = 0 \<longrightarrow> Suc i = length rs"
    and used: "length rs < 50 \<longrightarrow> rs \<noteq> [] \<and> last rs = 0"
    and env: "\<forall>r\<in>set rs. \<exists>h. r = stat env h ''mass:/''"
    by (simp_all add: poll_record_def)
  have "(\<forall>r\<in>set rs. r \<noteq> 0) \<longrightarrow> length rs = 50"
  proof
    assume never: "\<forall>r\<in>set rs. r \<noteq> 0"
    show "length rs = 50"
    proof (rule ccontr)
      assume "length rs \<noteq> 50"
      with len used have "rs \<noteq> []" and "last rs = 0" by simp_all
      with never show False using last_in_set by metis
    qed
  qed
  with out probes len stop env show ?thesis
    by (simp add: loads_issued_def)
qed

theorem waitUntilUsbDeviceIsReady_bounded_witness:
  "returned (waitUntilUsbDeviceIsReady (stub None None) initial_state) \<and>
   length (stats (new_events initial_state
      (final (waitUntilUsbDeviceIsReady (stub None None) initial_state)))) = 50"
proof -
  let ?probes = "stats (new_events initial_state
      (final (waitUntilUsbDeviceIsReady (stub None None) initial_state)))"
  note run = waitUntilUsbDeviceIsReady_bounded [of "stub None None" initial_state]
  then have "\<forall>r\<in>set ?probes. \<exists>h. r = stat (stub None None) h ''mass:/''"
    by blast
  then have "\<forall>r\<in>set ?probes. r \<noteq> 0"
    by (auto simp: stub_def)
  with run show ?thesis by blast
qed

lemma waitUntilUsbDeviceIsReady_early_exit_example:
  "stats (new_events initial_state
      (final (waitUntilUsbDeviceIsReady (stub None (Some 2)) initial_state))) = [- 1, - 1, 0]"
  by code_simp

text \<open>
  Claim C8 (patch applier contract). \<open>applyRpcPatches\<close> invokes nothing but capability
  toggles, in the order enable-LMB, disable-prefix-check, file-I/O. The first is always
  invoked; each next one is invoked exactly when the one before answered a non-negative
  status. A toggle that answers a negative status is the last one invoked and the
  function does not return (the assertion halts), and it is only so that it does not
  return: it returns exactly when all three were invoked with no negative status, and
  then returns the status of the last. In particular it returns, after all three, on a
  platform where no toggle fails. When it halts in a constructor of a bring-up, the
  bring-up ends there with no module load issued.
\<close>

theorem applyRpcPatches_contract:
  fixes env s cfg withUsb withHdd isLoggingToFile
  defines "out \<equiv> discard (applyRpcPatches env s)"
    and "toggles \<equiv> patches (new_events s (final (discard (applyRpcPatches env s))))"
    and "r1 \<equiv> sbv_patch_enable_lmb env (io_history (trace s))"
    and "r2 \<equiv> sbv_patch_disable_prefix_check env (io_history (trace s) @
          [Patch Enable_lmb (sbv_patch_enable_lmb env (io_history (trace s)))])"
    and "r3 \<equiv> sbv_patch_fileio env (io_history (trace s) @
          [Patch Enable_lmb (sbv_patch_enable_lmb env (io_history (trace s))),
           Patch Disable_prefix_check (sbv_patch_disable_prefix_check env (io_history (trace s) @
             [Patch Enable_lmb (sbv_patch_enable_lmb env (io_history (trace s)))]))])"
  shows "new_events s (final out) = map (\<lambda>(p, r). Patch p r) toggles \<and>
         prefix (trace s) (trace (final out)) \<and>
         prefix (map fst toggles) [Enable_lmb, Disable_prefix_check, Fileio] \<and>
         (\<forall>i<length toggles. sint (snd (toggles ! i)) < 0 \<longrightarrow>
            Suc i = length toggles \<and> \<not> returned out) \<and>
         (returned out \<longleftrightarrow>
            map fst toggles = [Enable_lmb, Disable_prefix_check, Fileio] \<and>
            (\<forall>x\<in>set toggles. 0 \<le> sint (snd x))) \<and>
         (\<forall>x\<in>set toggles. \<exists>h. snd x = toggle env (fst x) h) \<and>
         (\<forall>ret s'. applyRpcPatches env s = Inr (ret, s') \<longrightarrow> ret = snd (last toggles)) \<and>
         (\<not> returned out \<and> \<not> RESET_IOP cfg \<longrightarrow>
            bring_up cfg env withUsb withHdd isLoggingToFile s = Some out \<and>
            loads_issued s out = []) \<and>
         toggles =
           (if sint r1 < 0 then [(Enable_lmb, r1)]
            else if sint r2 < 0 then [(Enable_lmb, r1), (Disable_prefix_check, r2)]
            else [(Enable_lmb, r1), (Disable_prefix_check, r2), (Fileio, r3)]) \<and>
         (returned out \<longleftrightarrow> 0 \<le> sint r1 \<and> 0 \<le> sint r2 \<and> 0 \<le> sint r3) \<and>
         (\<not> returned out \<longrightarrow> sint (snd (last toggles)) < 0) \<and>
         ((\<forall>p h. 0 \<le> sint (toggle env p h)) \<longrightarrow>
            returned out \<and> map fst toggles = [Enable_lmb, Disable_prefix_check, Fileio])"
proof -
  from applyRpcPatches_run [of env s] obtain d where tr: "trace (final out) = trace s @ d"
    and d: "d = map (\<lambda>(p, r). Patch p r) (patches d)"
    and ff: "fail_fast patch_sequence (patches d) (returned out)"
    and env: "\<forall>x\<in>set (patches d). \<exists>h. snd x = toggle env (fst x) h"
    and ret: "\<forall>ret s'. applyRpcPatches env s = Inr (ret, s') \<longrightarrow> ret = snd (last (patches d))"
    unfolding out_def by blast
  from tr have new: "new_events s (final out) = d" by simp
  then have toggles: "toggles = patches d" by (simp add: toggles_def out_def)
  note ff' = ff [unfolded patch_sequence_def, folded toggles]
  from d new toggles have 1: "new_events s (final out) = map (\<lambda>(p, r). Patch p r) toggles"
    by simp
  from tr have 2: "prefix (trace s) (trace (final out))" by simp
  from ff' have 3: "prefix (map fst toggles) [Enable_lmb, Disable_prefix_check, Fileio]"
    by (rule fail_fast_prefix)
  from ff' have 4: "\<forall>i<length toggles. sint (snd (toggles ! i)) < 0 \<longrightarrow>
            Suc i = length toggles \<and> \<not> returned out"
    using fail_fast_negative_last by blast
  from ff' have 5: "returned out \<longleftrightarrow>
            map fst toggles = [Enable_lmb, Disable_prefix_check, Fileio] \<and>
            (\<forall>x\<in>set toggles. 0 \<le> sint (snd x))"
    by (rule fail_fast_returned)
  from env toggles have 6: "\<forall>x\<in>set toggles. \<exists>h. snd x = toggle env (fst x) h" by simp
  from ret toggles have 7: "\<forall>ret s'. applyRpcPatches env s = Inr (ret, s') \<longrightarrow> ret = snd (last toggles)"
    by simp
  have 8: "\<not> returned out \<and> \<not> RESET_IOP cfg \<longrightarrow>
            bring_up cfg env withUsb withHdd isLoggingToFile s = Some out \<and>
            loads_issued s out = []"
  proof
    assume a: "\<not> returned out \<and> \<not> RESET_IOP cfg"
    then obtain h where "out = Inl h" by (cases out) auto
    with a have "bring_up cfg env withUsb withHdd isLoggingToFile s = Some out"
      by (simp add: bring_up_def IrxLoader_def out_def)
    moreover from d new have "loads_issued s out = []"
      unfolding loads_issued_def by (metis projections_Patch(1))
    ultimately show "bring_up cfg env withUsb withHdd isLoggingToFile s = Some out \<and>
            loads_issued s out = []" by simp
  qed
  have 9: "toggles =
           (if sint r1 < 0 then [(Enable_lmb, r1)]
            else if sint r2 < 0 then [(Enable_lmb, r1), (Disable_prefix_check, r2)]
            else [(Enable_lmb, r1), (Disable_prefix_check, r2), (Fileio, r3)])"
    unfolding toggles_def r1_def r2_def r3_def by (rule applyRpcPatches_exact(1))
  have 10: "returned out \<longleftrightarrow> 0 \<le> sint r1 \<and> 0 \<le> sint r2 \<and> 0 \<le> sint r3"
    unfolding out_def r1_def r2_def r3_def by (rule applyRpcPatches_exact(2))
  from 9 10 have 11: "\<not> returned out \<longrightarrow> sint (snd (last toggles)) < 0"
    by auto
  have 12: "(\<forall>p h. 0 \<le> sint (toggle env p h)) \<longrightarrow>
            returned out \<and> map fst toggles = [Enable_lmb, Disable_prefix_check, Fileio]"
  proof
    assume a: "\<forall>p h. 0 \<le> sint (toggle env p h)"
    from a [rule_format, of Enable_lmb] a [rule_format, of Disable_prefix_check]
      a [rule_format, of Fileio]
    have "0 \<le> sint r1" "0 \<le> sint r2" "0 \<le> sint r3"
      by (simp_all add: r1_def r2_def r3_def)
    with 9 10 show "returned out \<and> map fst toggles = [Enable_lmb, Disable_prefix_check, Fileio]"
      by simp
  qed
  show ?thesis by (intro conjI 1 2 3 4 5 6 7 8 9 10 11 12)
qed

theorem applyRpcPatches_contract_witness:
  "1 < length (patches (new_events initial_state (final (discard
      (applyRpcPatches (stub None None\<lparr>sbv_patch_disable_prefix_check := \<lambda>h. - 1\<rparr>)
         initial_state))))) \<and>
   sint (snd (patches (new_events initial_state (final (discard
      (applyRpcPatches (stub None None\<lparr>sbv_patch_disable_prefix_check := \<lambda>h. - 1\<rparr>)
         initial_state)))) ! 1)) < 0 \<and>
   \<not> returned (discard
      (applyRpcPatches (stub None None\<lparr>sbv_patch_disable_prefix_check := \<lambda>h. - 1\<rparr>)
         initial_state)) \<and>
   length (patches (new_events initial_state (final (discard
      (applyRpcPatches (stub None None\<lparr>sbv_patch_disable_prefix_check := \<lambda>h. - 1\<rparr>)
         initial_state))))) = 2 \<and>
   returned (discard (applyRpcPatches (stub None None) initial_state)) \<and>
   map fst (patches (new_events initial_state (final (discard
      (applyRpcPatches (stub None None) initial_state))))) =
     [Enable_lmb, Disable_prefix_check, Fileio]"
proof -
  let ?env = "stub None None\<lparr>sbv_patch_disable_prefix_check := \<lambda>h. - 1\<rparr>"
  have toggles: "patches (new_events initial_state (final (discard
      (applyRpcPatches ?env initial_state)))) = [(Enable_lmb, 0), (Disable_prefix_check, - 1)]"
    by code_simp
  have pos: "1 < length (patches (new_events initial_state (final (discard
      (applyRpcPatches ?env initial_state)))))"
    and neg: "sint (snd (patches (new_events initial_state (final (discard
      (applyRpcPatches ?env initial_state)))) ! 1)) < 0"
    by (simp_all add: toggles)
  note run = applyRpcPatches_contract [where env = ?env and s = initial_state and
      cfg = standard_build and withUsb = False and withHdd = False and isLoggingToFile = False]
  note last = run [THEN conjunct2, THEN conjunct2, THEN conjunct2, THEN conjunct1]
  from last pos neg have halt: "\<not> returned (discard (applyRpcPatches ?env initial_state))"
    by blast
  have ok: "\<forall>p h. 0 \<le> sint (toggle (stub None None) p h)"
  proof (intro allI)
    fix p h
    show "0 \<le> sint (toggle (stub None None) p h)"
      by (cases p) (simp_all add: stub_def)
  qed
  note good = applyRpcPatches_contract [where env = "stub None None" and s = initial_state and
      cfg = standard_build and withUsb = False and withHdd = False and isLoggingToFile = False]
  note progress = good [THEN conjunct2, THEN conjunct2, THEN conjunct2, THEN conjunct2,
      THEN conjunct2, THEN conjunct2, THEN conjunct2, THEN conjunct2, THEN conjunct2,
      THEN conjunct2, THEN conjunct2]
  from progress ok have "returned (discard (applyRpcPatches (stub None None) initial_state)) \<and>
      map fst (patches (new_events initial_state (final (discard
        (applyRpcPatches (stub None None) initial_state))))) =
      [Enable_lmb, Disable_prefix_check, Fileio]"
    by blast
  with halt pos neg show ?thesis
    by (simp add: toggles)
qed

text \<open>
  Claim C9 (logging is a suppressible, behaviour-neutral side channel), as stated, fails
  for the audio-server step: \<open>loadAll\<close> calls \<open>loadAudsrv(true)\<close>, so the two lines of
  that step are written with \<open>isLoggingToFile\<close> true as well as false. On the stub
  platform, a first call without the optional batches writes exactly those two lines
  when logging to file, and writes them among the twelve lines of all steps otherwise.
\<close>

theorem logging_suppresses_every_step_counterexample:
  "logs (new_events initial_state (final
      (loadAll standard_build (stub None None) False False True initial_state))) =
     [''IRX: Loading audsrv...'', ''IRX: Audsrv loaded!''] \<and>
   logs (new_events initial_state (final
      (loadAll standard_build (stub None None) False False False initial_state))) =
     [''IRX: Loading iomanX...'', ''IRX: iomanX loaded!'',
      ''IRX: Loading fileXio...'', ''IRX: fileXio_irx loaded!'',
      ''IRX: Loading sio2man...'', ''IRX: Sio2man loaded!'',
      ''IRX: Loading padman...'', ''IRX: Padman loaded!'',
      ''IRX: Loading libsd...'', ''IRX: Libsd loaded!'',
      ''IRX: Loading audsrv...'', ''IRX: Audsrv loaded!'']"
  by code_simp

text \<open>
  Claim C9, amended. With \<open>isLoggingToFile\<close> true, a first call of \<open>loadAll\<close> writes
  no log line for any step but the audio server (both of its lines when the call
  returns, the first alone when the audio server fails to load, none when the call
  halts earlier). The two lines of the audio server are written whatever the argument:
  in any first call that issues the load of audsrv the line announcing it is written,
  and in any first call that returns the two lines are the last ones written. Two
  calls from the same state that differ only in the logging argument issue the same
  module loads in the same order with the same statuses, make the same calls into the
  platform, end the same way (return, or halt on the same assertion) and leave the
  same flag.
\<close>

theorem logging_behaviour_neutral:
  fixes cfg env withUsb withHdd s l l'
  defines "quiet \<equiv> loadAll cfg env withUsb withHdd True s"
    and "out \<equiv> loadAll cfg env withUsb withHdd l s"
    and "out' \<equiv> loadAll cfg env withUsb withHdd l' s"
  shows "(\<not> isLoaded s \<longrightarrow>
            prefix (logs (new_events s (final quiet)))
              [''IRX: Loading audsrv...'', ''IRX: Audsrv loaded!''] \<and>
            (returned quiet \<longrightarrow> logs (new_events s (final quiet)) =
              [''IRX: Loading audsrv...'', ''IRX: Audsrv loaded!''])) \<and>
         (\<not> isLoaded s \<longrightarrow>
            (audsrv_irx \<in> fst ` set (loads_issued s out) \<longrightarrow>
               ''IRX: Loading audsrv...'' \<in> set (logs (new_events s (final out)))) \<and>
            (returned out \<longrightarrow>
               suffix [''IRX: Loading audsrv...'', ''IRX: Audsrv loaded!'']
                 (logs (new_events s (final out))))) \<and>
         loads_issued s out = loads_issued s out' \<and>
         io_history (new_events s (final out)) = io_history (new_events s (final out')) \<and>
         verdict out = verdict out' \<and> returned out = returned out' \<and>
         isLoaded (final out) = isLoaded (final out')"
proof -
  have 1: "\<not> isLoaded s \<longrightarrow>
            prefix (logs (new_events s (final quiet)))
              [''IRX: Loading audsrv...'', ''IRX: Audsrv loaded!''] \<and>
            (returned quiet \<longrightarrow> logs (new_events s (final quiet)) =
              [''IRX: Loading audsrv...'', ''IRX: Audsrv loaded!''])"
  proof
    assume first: "\<not> isLoaded s"
    from loadAll_quiet_logs [OF first, of cfg env withUsb withHdd] obtain ls where
      ls: "logs (trace (final quiet)) = logs (trace s) @ ls"
      and pre: "prefix ls [''IRX: Loading audsrv...'', ''IRX: Audsrv loaded!'']"
      and ret: "returned quiet \<longrightarrow> ls = [''IRX: Loading audsrv...'', ''IRX: Audsrv loaded!'']"
      unfolding quiet_def by blast
    from loadAll_events [of cfg env withUsb withHdd True s] obtain dl where
      dl: "trace (final quiet) = trace s @ dl"
      unfolding quiet_def by blast
    with ls have "logs (new_events s (final quiet)) = ls" by simp
    with pre ret show "prefix (logs (new_events s (final quiet)))
              [''IRX: Loading audsrv...'', ''IRX: Audsrv loaded!''] \<and>
            (returned quiet \<longrightarrow> logs (new_events s (final quiet)) =
              [''IRX: Loading audsrv...'', ''IRX: Audsrv loaded!''])"
      by simp
  qed
  have "same_io s s" by (simp add: same_io_def)
  then have same: "same_outcome out out'"
    unfolding out_def out'_def by (rule loadAll_same_io)
  from loadAll_events [of cfg env withUsb withHdd l s] obtain d where
    d: "trace (final out) = trace s @ d"
    unfolding out_def by blast
  from loadAll_events [of cfg env withUsb withHdd l' s] obtain d' where
    d': "trace (final out') = trace s @ d'"
    unfolding out'_def by blast
  from same have "io_history (trace (final out)) = io_history (trace (final out'))"
    by (simp add: same_outcome_def same_io_def)
  then have "io_history (trace s @ d) = io_history (trace s @ d')"
    by (simp only: d d')
  then have io: "io_history d = io_history d'"
    by simp
  from d d' io have 3: "io_history (new_events s (final out)) = io_history (new_events s (final out'))"
    by simp
  from io have "execs d = execs d'" by (metis execs_io_history)
  with d d' have 2: "loads_issued s out = loads_issued s out'"
    by (simp add: loads_issued_def)
  from same have 4: "verdict out = verdict out'" by (simp add: same_outcome_def)
  then have 5: "returned out = returned out'" by (simp add: returned_verdict)
  from same have 6: "isLoaded (final out) = isLoaded (final out')"
    by (simp add: same_outcome_def same_io_def)
  have 7: "\<not> isLoaded s \<longrightarrow>
            (audsrv_irx \<in> fst ` set (loads_issued s out) \<longrightarrow>
               ''IRX: Loading audsrv...'' \<in> set (logs (new_events s (final out)))) \<and>
            (returned out \<longrightarrow>
               suffix [''IRX: Loading audsrv...'', ''IRX: Audsrv loaded!'']
                 (logs (new_events s (final out))))"
  proof
    assume first: "\<not> isLoaded s"
    from loadAll_audsrv_logs [OF first, of cfg env withUsb withHdd l] obtain pre ls where
      split: "logs (new_events s (final out)) = pre @ ls"
      and pre: "prefix ls [''IRX: Loading audsrv...'', ''IRX: Audsrv loaded!'']"
      and ret: "returned out \<longrightarrow> ls = [''IRX: Loading audsrv...'', ''IRX: Audsrv loaded!'']"
      and aud: "audsrv_irx \<in> fst ` set (loads_issued s out) \<longrightarrow> ls \<noteq> []"
      unfolding out_def by blast
    have a: "audsrv_irx \<in> fst ` set (loads_issued s out) \<longrightarrow>
               ''IRX: Loading audsrv...'' \<in> set (logs (new_events s (final out)))"
    proof
      assume "audsrv_irx \<in> fst ` set (loads_issued s out)"
      with aud have "ls \<noteq> []" by simp
      with pre have "''IRX: Loading audsrv...'' \<in> set ls"
        by (cases ls) (auto simp: prefix_Cons)
      with split show "''IRX: Loading audsrv...'' \<in> set (logs (new_events s (final out)))"
        by simp
    qed
    have b: "returned out \<longrightarrow>
               suffix [''IRX: Loading audsrv...'', ''IRX: Audsrv loaded!'']
                 (logs (new_events s (final out)))"
      using ret split by (auto simp: suffix_def)
    from a b show "(audsrv_irx \<in> fst ` set (loads_issued s out) \<longrightarrow>
               ''IRX: Loading audsrv...'' \<in> set (logs (new_events s (final out)))) \<and>
            (returned out \<longrightarrow>
               suffix [''IRX: Loading audsrv...'', ''IRX: Audsrv loaded!'']
                 (logs (new_events s (final out))))"
      by simp
  qed
  show ?thesis by (intro conjI 1 7 2 3 4 5 6)
qed

theorem logging_behaviour_neutral_witness:
  "\<not> isLoaded initial_state \<and>
   returned (loadAll standard_build (stub None (Some 1)) True False True initial_state) \<and>
   logs (new_events initial_state (final
      (loadAll standard_build (stub None (Some 1)) True False True initial_state))) =
     [''IRX: Loading audsrv...'', ''IRX: Audsrv loaded!''] \<and>
   returned (loadAll standard_build (stub None (Some 1)) True False False initial_state) \<and>
   suffix [''IRX: Loading audsrv...'', ''IRX: Audsrv loaded!'']
     (logs (new_events initial_state (final
        (loadAll standard_build (stub None (Some 1)) True False False initial_state)))) \<and>
   loads_issued initial_state
      (loadAll standard_build (stub None (Some 1)) True False True initial_state) =
   loads_issued initial_state
      (loadAll standard_build (stub None (Some 1)) True False False initial_state)"
proof -
  have flag: "\<not> isLoaded initial_state"
    by (simp add: initial_state_def)
  have ret: "returned (loadAll standard_build (stub None (Some 1)) True False True initial_state)"
    by code_simp
  have ret': "returned (loadAll standard_build (stub None (Some 1)) True False False initial_state)"
    by code_simp
  note inst = logging_behaviour_neutral [where cfg = standard_build and env = "stub None (Some 1)"
      and withUsb = True and withHdd = False and s = initial_state and l = True and l' = False]
  note quiet = inst [THEN conjunct1]
  note same = inst [THEN conjunct2, THEN conjunct2, THEN conjunct1]
  note loud = logging_behaviour_neutral [where cfg = standard_build and env = "stub None (Some 1)"
      and withUsb = True and withHdd = False and s = initial_state and l = False and l' = True,
      THEN conjunct2, THEN conjunct1]
  from quiet flag ret have "logs (new_events initial_state (final
      (loadAll standard_build (stub None (Some 1)) True False True initial_state))) =
     [''IRX: Loading audsrv...'', ''IRX: Audsrv loaded!'']"
    by simp
  moreover from loud flag ret' have "suffix [''IRX: Loading audsrv...'', ''IRX: Audsrv loaded!'']
     (logs (new_events initial_state (final
        (loadAll standard_build (stub None (Some 1)) True False False initial_state))))"
    by simp
  ultimately show ?thesis using flag ret ret' same by simp
qed



end
